theory Spec2Isabelle
  imports Main "HOL-Library.Multiset"
begin

section \<open>Data model of useSortBy\<close>

text \<open>
  Column identifiers are strings. A flag that JavaScript reads by truthiness and that
  may be missing (\<open>desc\<close>, \<open>sortDescFirst\<close>, \<open>sortInverted\<close>) is one of
  \<open>undefined\<close>, \<open>null\<close> or a boolean.
\<close>

type_synonym colid = string

datatype jsflag = Undefined | Null | JBool bool

fun truthy :: "jsflag \<Rightarrow> bool" where
  "truthy (JBool b) = b"
| "truthy Undefined = False"
| "truthy Null = False"

text \<open>One entry of \<open>state.sortBy\<close>: \<open>{ id, desc }\<close>.\<close>

record criterion =
  sort_id :: colid
  sort_desc :: jsflag

text \<open>
  A comparator \<open>(valueA, valueB, desc) => number\<close> over cell values of type \<open>'v\<close>.
  Comparators are taken to be pure and to return an integer.
\<close>

type_synonym 'v comparator = "'v \<Rightarrow> 'v \<Rightarrow> jsflag \<Rightarrow> int"

text \<open>\<open>column.sortType\<close>: missing, a registry key, or a comparator function.\<close>

datatype 'v sortType = SortTypeUndefined | SortTypeName string | SortTypeFn "'v comparator"

record 'v column =
  column_id :: colid
  sortType :: "'v sortType"
  sortDescFirst :: jsflag
  sortInverted :: jsflag

text \<open>
  Rows and arrays are objects with identity. A row holds its cell values and a
  reference to its \<open>subRows\<close> array (or none); an array holds row references.
\<close>

type_synonym addr = nat

record 'v row =
  row_values :: "colid \<Rightarrow> 'v"
  subRows :: "addr option"

record 'v heap =
  rowAt :: "addr \<Rightarrow> 'v row"
  arrayAt :: "addr \<Rightarrow> addr list"
  nextArray :: addr

text \<open>
  The table instance as \<open>useMain\<close> destructures it. \<open>orderByFn\<close> is any function
  the instance carries: it receives the array, one comparator on rows per criterion and
  one direction flag per criterion, and returns an array, which may be a new one or one
  that exists (the array it was given, say), and it may write to the heap.
\<close>

record 'v "instance" =
  columns :: "'v column list"
  orderByFn :: "'v heap \<Rightarrow> addr \<Rightarrow> (addr \<Rightarrow> addr \<Rightarrow> int) list \<Rightarrow> jsflag list \<Rightarrow> addr \<times> 'v heap"
  userSortTypes :: "(string \<rightharpoonup> 'v comparator) option"
  manualSorting :: bool
  disableSortRemove :: bool
  disableMultiRemove :: bool
  disableMultiSort :: bool

text \<open>
  What the module finds outside the instance. The built-in registry
  \<open>import * as sortTypes from '../sortTypes'\<close>: its \<open>alphanumeric\<close> export, which the
  source names, and its other exports by name. And the members that every plain object
  inherits from \<open>Object.prototype\<close> (\<open>constructor\<close>, \<open>toString\<close>, ...), by name: each is
  a function, here with the number it yields when it is called as a comparator.
\<close>

record 'v globals =
  alphanumeric :: "'v comparator"
  otherSortTypes :: "string \<rightharpoonup> 'v comparator"
  objectPrototype :: "string \<rightharpoonup> 'v comparator"

datatype error = TypeError | RangeError

section \<open>toggleSortBy\<close>

datatype action = Replace | Add | Toggle | Remove

text \<open>\<open>Array.prototype.findIndex\<close>: the first index that satisfies the test, or -1.\<close>

fun findIndex :: "('a \<Rightarrow> bool) \<Rightarrow> 'a list \<Rightarrow> int" where
  "findIndex P [] = -1"
| "findIndex P (x # xs) =
     (if P x then 0 else (let i = findIndex P xs in if i < 0 then -1 else i + 1))"

definition findColumn :: "'v column list \<Rightarrow> colid \<Rightarrow> 'v column option" where
  "findColumn cols columnID = find (\<lambda>d. column_id d = columnID) cols"

definition existingSortBy :: "criterion list \<Rightarrow> colid \<Rightarrow> criterion option" where
  "existingSortBy sortBy columnID = find (\<lambda>d. sort_id d = columnID) sortBy"

definition existingIndex :: "criterion list \<Rightarrow> colid \<Rightarrow> int" where
  "existingIndex sortBy columnID = findIndex (\<lambda>d. sort_id d = columnID) sortBy"

definition hasDescDefined :: "jsflag \<Rightarrow> bool" where
  "hasDescDefined desc = (desc \<noteq> Undefined \<and> desc \<noteq> Null)"

text \<open>The first \<open>if\<close> of \<open>toggleSortBy\<close> (lines 103-118): the action before any downgrade.\<close>

definition baseAction :: "('v, 'x) instance_scheme \<Rightarrow> criterion list \<Rightarrow> colid \<Rightarrow> bool \<Rightarrow> action" where
  "baseAction inst sortBy columnID multi =
     (if \<not> disableMultiSort inst \<and> multi then
        (if existingSortBy sortBy columnID \<noteq> None then Toggle else Add)
      else if existingIndex sortBy columnID \<noteq> int (length sortBy) - 1 then Replace
      else if existingSortBy sortBy columnID \<noteq> None then Toggle
      else Replace)"

text \<open>
  The last conjunct of the removal test (lines 126-128). It reads
  \<open>existingSortBy.desc\<close>, which throws when no criterion was found.
\<close>

definition removalBoundary :: "criterion option \<Rightarrow> jsflag \<Rightarrow> error + bool" where
  "removalBoundary existing sdf =
     (case existing of
        Some e \<Rightarrow> Inr ((truthy (sort_desc e) \<and> \<not> truthy sdf) \<or> (\<not> truthy (sort_desc e) \<and> truthy sdf))
      | None \<Rightarrow> Inl TypeError)"

text \<open>The second \<open>if\<close> (lines 121-131): a toggle may become a removal.\<close>

definition finalAction ::
  "('v, 'x) instance_scheme \<Rightarrow> criterion list \<Rightarrow> jsflag \<Rightarrow> colid \<Rightarrow> jsflag \<Rightarrow> bool \<Rightarrow> error + action" where
  "finalAction inst sortBy sdf columnID desc multi =
     (let action = baseAction inst sortBy columnID multi in
      if action = Toggle \<and> \<not> disableSortRemove inst \<and> \<not> hasDescDefined desc
         \<and> (if multi then \<not> disableMultiRemove inst else True)
      then (case removalBoundary (existingSortBy sortBy columnID) sdf of
              Inl e \<Rightarrow> Inl e
            | Inr b \<Rightarrow> Inr (if b then Remove else action))
      else Inr action)"

text \<open>The callback of \<open>sortBy.map\<close> in the toggle branch (lines 150-158).\<close>

definition toggleEntry :: "criterion option \<Rightarrow> colid \<Rightarrow> jsflag \<Rightarrow> criterion \<Rightarrow> error + criterion" where
  "toggleEntry existing columnID desc d =
     (if sort_id d = columnID then
        (if hasDescDefined desc then Inr (d\<lparr>sort_desc := desc\<rparr>)
         else (case existing of
                 None \<Rightarrow> Inl TypeError
               | Some e \<Rightarrow> Inr (d\<lparr>sort_desc := JBool (\<not> truthy (sort_desc e))\<rparr>)))
      else Inr d)"

text \<open>A map whose callback may throw: the first error ends it.\<close>

fun mapE :: "('a \<Rightarrow> error + 'b) \<Rightarrow> 'a list \<Rightarrow> error + 'b list" where
  "mapE f [] = Inr []"
| "mapE f (x # xs) =
     (case f x of
        Inl e \<Rightarrow> Inl e
      | Inr y \<Rightarrow> (case mapE f xs of Inl e \<Rightarrow> Inl e | Inr ys \<Rightarrow> Inr (y # ys)))"

text \<open>The third \<open>if\<close> chain (lines 133-161): the new criteria list.\<close>

definition applyAction ::
  "action \<Rightarrow> criterion list \<Rightarrow> jsflag \<Rightarrow> colid \<Rightarrow> jsflag \<Rightarrow> error + criterion list" where
  "applyAction act sortBy sdf columnID desc =
     (case act of
        Replace \<Rightarrow>
          Inr [\<lparr>sort_id = columnID, sort_desc = (if hasDescDefined desc then desc else sdf)\<rparr>]
      | Add \<Rightarrow>
          Inr (sortBy @ [\<lparr>sort_id = columnID, sort_desc = (if hasDescDefined desc then desc else sdf)\<rparr>])
      | Toggle \<Rightarrow> mapE (toggleEntry (existingSortBy sortBy columnID) columnID desc) sortBy
      | Remove \<Rightarrow> Inr (filter (\<lambda>d. sort_id d \<noteq> columnID) sortBy))"

text \<open>
  \<open>toggleSortBy(columnID, desc, multi)\<close> as a function of the old \<open>sortBy\<close>; the other
  fields of the state are copied unchanged. Destructuring a column that was not found
  throws.
\<close>

definition toggleSortBy ::
  "('v, 'x) instance_scheme \<Rightarrow> criterion list \<Rightarrow> colid \<Rightarrow> jsflag \<Rightarrow> bool \<Rightarrow> error + criterion list" where
  "toggleSortBy inst sortBy columnID desc multi =
     (case findColumn (columns inst) columnID of
        None \<Rightarrow> Inl TypeError
      | Some column \<Rightarrow>
          (case finalAction inst sortBy (sortDescFirst column) columnID desc multi of
             Inl e \<Rightarrow> Inl e
           | Inr act \<Rightarrow> applyAction act sortBy (sortDescFirst column) columnID desc))"

section \<open>The ordering engine\<close>

subsection \<open>Comparator and direction per criterion\<close>

text \<open>
  Modelled from the spec: \<open>isFunction\<close> of \<open>'../utils'\<close> is not among the sources. The
  spec says "If the column's \<open>sortType\<close> is itself a function, use it directly": it
  yields its argument when that is a function and nothing otherwise.
\<close>

definition isFunction :: "'v sortType \<Rightarrow> 'v comparator option" where
  "isFunction a = (case a of SortTypeFn f \<Rightarrow> Some f | _ \<Rightarrow> None)"

text \<open>
  The property key that \<open>obj[sortType]\<close> reads: a string is its own key and
  \<open>undefined\<close> is the key "undefined". A function is never used as a key, since
  \<open>||\<close> stops at \<open>isFunction(sortType)\<close>.
\<close>

fun propertyKey :: "'v sortType \<Rightarrow> string" where
  "propertyKey (SortTypeName k) = k"
| "propertyKey SortTypeUndefined = ''undefined''"
| "propertyKey (SortTypeFn f) = ''function''"

text \<open>
  \<open>(userSortTypes || {})[key]\<close>. A registry is a plain object, given by the map from
  its own keys to the comparators it holds; a missing registry is the empty object. The
  property read finds an own entry first and otherwise what the object inherits from
  \<open>Object.prototype\<close>: for the key "constructor" it yields a function even when the
  registry is empty or missing.
\<close>

definition userLookup ::
  "'v globals \<Rightarrow> (string \<rightharpoonup> 'v comparator) option \<Rightarrow> string \<Rightarrow> 'v comparator option" where
  "userLookup st reg k =
     (case (case reg of None \<Rightarrow> None | Some m \<Rightarrow> m k) of
        Some f \<Rightarrow> Some f
      | None \<Rightarrow> objectPrototype st k)"

text \<open>\<open>sortTypes[key]\<close>.\<close>

definition builtinLookup :: "'v globals \<Rightarrow> string \<Rightarrow> 'v comparator option" where
  "builtinLookup st k = (if k = ''alphanumeric'' then Some (alphanumeric st) else otherSortTypes st k)"

text \<open>The \<open>||\<close> chain of lines 241-245.\<close>

definition sortMethod ::
  "'v globals \<Rightarrow> (string \<rightharpoonup> 'v comparator) option \<Rightarrow> 'v sortType \<Rightarrow> 'v comparator" where
  "sortMethod st reg ty =
     (case isFunction ty of
        Some f \<Rightarrow> f
      | None \<Rightarrow>
          (case userLookup st reg (propertyKey ty) of
             Some g \<Rightarrow> g
           | None \<Rightarrow>
               (case builtinLookup st (propertyKey ty) of
                  Some h \<Rightarrow> h
                | None \<Rightarrow> alphanumeric st)))"

text \<open>
  The resolution as the spec words it: a priority list of stages, of which the first
  that yields a comparator is used. Its second stage is "the entry under the
  \<open>sortType\<close> key in the user-supplied comparator registry": an entry of the registry
  itself, and none when no registry is supplied.
\<close>

definition registryEntry :: "(string \<rightharpoonup> 'v comparator) option \<Rightarrow> string \<Rightarrow> 'v comparator option" where
  "registryEntry reg k = (case reg of None \<Rightarrow> None | Some m \<Rightarrow> m k)"

fun firstCapable :: "'a option list \<Rightarrow> 'a option" where
  "firstCapable [] = None"
| "firstCapable (Some x # rest) = Some x"
| "firstCapable (None # rest) = firstCapable rest"

definition resolutionStages ::
  "'v globals \<Rightarrow> (string \<rightharpoonup> 'v comparator) option \<Rightarrow> 'v sortType \<Rightarrow> 'v comparator option list" where
  "resolutionStages st reg ty =
     [(case ty of SortTypeFn f \<Rightarrow> Some f | _ \<Rightarrow> None),
      registryEntry reg (propertyKey ty),
      builtinLookup st (propertyKey ty),
      Some (alphanumeric st)]"

text \<open>
  The first callback of \<open>sortBy.map\<close> (lines 230-250): the comparator on rows for one
  criterion. Destructuring a column that was not found throws.
\<close>

definition sortFn ::
  "'v globals \<Rightarrow> ('v, 'x) instance_scheme \<Rightarrow> criterion \<Rightarrow> error + ('v row \<Rightarrow> 'v row \<Rightarrow> int)" where
  "sortFn st inst srt =
     (case findColumn (columns inst) (sort_id srt) of
        None \<Rightarrow> Inl TypeError
      | Some column \<Rightarrow>
          Inr (\<lambda>a b. sortMethod st (userSortTypes inst) (sortType column)
                       (row_values a (sort_id srt)) (row_values b (sort_id srt)) (sort_desc srt)))"

text \<open>The second callback (lines 252-261): the direction flag for one criterion.\<close>

definition sortDir :: "('v, 'x) instance_scheme \<Rightarrow> criterion \<Rightarrow> error + jsflag" where
  "sortDir inst srt =
     (case findColumn (columns inst) (sort_id srt) of
        None \<Rightarrow> Inl TypeError
      | Some column \<Rightarrow>
          Inr (if truthy (sortInverted column) then sort_desc srt
               else JBool (\<not> truthy (sort_desc srt))))"

subsection \<open>The built-in composition\<close>

text \<open>
  Modelled from the spec: \<open>defaultOrderByFn\<close> of \<open>'../utils'\<close> is not among the
  sources. The spec says "rows are ordered by criteria in list order -- criterion at
  index 0 is primary, subsequent criteria break ties left-to-right. The composition
  must be stable", and that it builds a new array. The first comparator that tells two
  rows apart decides; its sign is kept when the criterion's direction flag is truthy
  (the source passes \<open>!desc\<close> for a plain column) and negated otherwise. The sort is a
  stable insertion sort.
\<close>

fun compareRows :: "('a \<Rightarrow> 'a \<Rightarrow> int) list \<Rightarrow> jsflag list \<Rightarrow> 'a \<Rightarrow> 'a \<Rightarrow> int" where
  "compareRows [] dirs a b = 0"
| "compareRows (f # funcs) dirs a b =
     (if f a b \<noteq> 0 then
        (if truthy (case dirs of [] \<Rightarrow> Undefined | d # ds \<Rightarrow> d) then f a b else - f a b)
      else compareRows funcs (tl dirs) a b)"

text \<open>
  Modelled from the spec: the built-in composition is stable, so a row is put before the
  first row of the sorted rest that it does not follow; it stays before its equals.
\<close>

fun insertRow :: "('a \<Rightarrow> 'a \<Rightarrow> int) \<Rightarrow> 'a \<Rightarrow> 'a list \<Rightarrow> 'a list" where
  "insertRow c x [] = [x]"
| "insertRow c x (y # ys) = (if c x y \<le> 0 then x # y # ys else y # insertRow c x ys)"

text \<open>
  Modelled from the spec: \<open>defaultOrderByFn(arr, funcs, dirs)\<close>, the rows of \<open>arr\<close> in
  the order of the composed comparison, as the contents of a new array.
\<close>

definition defaultOrderByFn :: "'a list \<Rightarrow> ('a \<Rightarrow> 'a \<Rightarrow> int) list \<Rightarrow> jsflag list \<Rightarrow> 'a list" where
  "defaultOrderByFn arr funcs dirs = foldr (insertRow (compareRows funcs dirs)) arr []"

subsection \<open>sortData and the memoised sortedRows\<close>

text \<open>A new array object: it gets the next free address.\<close>

definition newArray :: "'v heap \<Rightarrow> addr list \<Rightarrow> addr \<times> 'v heap" where
  "newArray h xs =
     (nextArray h, h\<lparr>arrayAt := (arrayAt h)(nextArray h := xs), nextArray := Suc (nextArray h)\<rparr>)"

text \<open>
  Modelled from the spec: the built-in \<open>orderByFn\<close> does not sort in place, "sibling
  arrays are rebuilt". An \<open>orderByFn\<close> that orders the contents of its array by \<open>ord\<close>
  and returns them in a new array, leaving every other object as it is.
\<close>

definition intoNewArray ::
  "(addr list \<Rightarrow> (addr \<Rightarrow> addr \<Rightarrow> int) list \<Rightarrow> jsflag list \<Rightarrow> addr list) \<Rightarrow>
     'v heap \<Rightarrow> addr \<Rightarrow> (addr \<Rightarrow> addr \<Rightarrow> int) list \<Rightarrow> jsflag list \<Rightarrow> addr \<times> 'v heap" where
  "intoNewArray ord h arr funcs dirs = newArray h (ord (arrayAt h arr) funcs dirs)"

text \<open>The assignment \<open>row.subRows = v\<close>.\<close>

definition setSubRows :: "'v heap \<Rightarrow> addr \<Rightarrow> addr \<Rightarrow> 'v heap" where
  "setSubRows h r v = h\<lparr>rowAt := (rowAt h)(r := (rowAt h r)\<lparr>subRows := Some v\<rparr>)\<rparr>"

text \<open>
  The call \<open>orderByFn(rows, sortBy.map(...), sortBy.map(...))\<close> of lines 228-262 on
  an array: both maps run before the call, and either may throw. The comparators read
  the rows through the heap. The result is the array that \<open>orderByFn\<close> returns and the
  heap it leaves.
\<close>

definition orderLevel ::
  "'v globals \<Rightarrow> ('v, 'x) instance_scheme \<Rightarrow> criterion list \<Rightarrow>
     'v heap \<Rightarrow> addr \<Rightarrow> error + (addr \<times> 'v heap)" where
  "orderLevel st inst sortBy h rows =
     (case mapE (sortFn st inst) sortBy of
        Inl e \<Rightarrow> Inl e
      | Inr funcs \<Rightarrow>
          (case mapE (sortDir inst) sortBy of
             Inl e \<Rightarrow> Inl e
           | Inr dirs \<Rightarrow>
               Inr (orderByFn inst h rows (map (\<lambda>f a b. f (rowAt h a) (rowAt h b)) funcs) dirs)))"

text \<open>
  \<open>sortData\<close> (lines 224-273) on the array at an address, and its \<open>forEach\<close> loop over
  the rows of the array that \<open>orderByFn\<close> returned; \<open>sortData\<close> returns that same array
  (line 272). The first argument bounds the depth of the recursion: a call that needs
  more depth ends as the stack overflow does, with a \<open>RangeError\<close>.
\<close>

function
  sortData :: "nat \<Rightarrow> 'v globals \<Rightarrow> ('v, 'x) instance_scheme \<Rightarrow> criterion list \<Rightarrow>
     'v heap \<Rightarrow> addr \<Rightarrow> error + (addr \<times> 'v heap)"
and
  sortSubRows :: "nat \<Rightarrow> 'v globals \<Rightarrow> ('v, 'x) instance_scheme \<Rightarrow> criterion list \<Rightarrow>
     'v heap \<Rightarrow> addr list \<Rightarrow> error + 'v heap"
where
  "sortData 0 st inst sortBy h rows = Inl RangeError"
| "sortData (Suc n) st inst sortBy h rows =
     (case orderLevel st inst sortBy h rows of
        Inl e \<Rightarrow> Inl e
      | Inr (sortedData, h1) \<Rightarrow>
          (case sortSubRows n st inst sortBy h1 (arrayAt h1 sortedData) of
             Inl e \<Rightarrow> Inl e
           | Inr h2 \<Rightarrow> Inr (sortedData, h2)))"
| "sortSubRows n st inst sortBy h [] = Inr h"
| "sortSubRows n st inst sortBy h (row # rest) =
     (case subRows (rowAt h row) of
        None \<Rightarrow> sortSubRows n st inst sortBy h rest
      | Some sub \<Rightarrow>
          (case sortData n st inst sortBy h sub of
             Inl e \<Rightarrow> Inl e
           | Inr (sub', h') \<Rightarrow> sortSubRows n st inst sortBy (setSubRows h' row sub') rest))"
  by pat_completeness auto
termination
  by (relation "measures [
        (\<lambda>x. case x of Inl (n, _) \<Rightarrow> n | Inr (n, _) \<Rightarrow> n),
        (\<lambda>x. case x of Inl _ \<Rightarrow> 0 | Inr (_, _, _, _, _, rs) \<Rightarrow> Suc (length rs))]") auto

text \<open>The body of the \<open>useMemo\<close> (lines 216-279).\<close>

definition sortedRows ::
  "nat \<Rightarrow> 'v globals \<Rightarrow> ('v, 'x) instance_scheme \<Rightarrow> criterion list \<Rightarrow>
     'v heap \<Rightarrow> addr \<Rightarrow> error + (addr \<times> 'v heap)" where
  "sortedRows fuel st inst sortBy h rows =
     (if manualSorting inst \<or> sortBy = [] then Inr (rows, h)
      else sortData fuel st inst sortBy h rows)"

section \<open>Reading a forest from the heap\<close>

text \<open>What \<open>row.subRows\<close> shows: the contents of the array the row refers to.\<close>

definition childRows :: "'v heap \<Rightarrow> addr \<Rightarrow> addr list option" where
  "childRows h r = map_option (arrayAt h) (subRows (rowAt h r))"

text \<open>The rows that the array returned by the \<open>orderByFn\<close> call on an array holds.\<close>

definition orderedContents ::
  "'v globals \<Rightarrow> ('v, 'x) instance_scheme \<Rightarrow> criterion list \<Rightarrow>
     'v heap \<Rightarrow> addr \<Rightarrow> error + addr list" where
  "orderedContents st inst sortBy h rows =
     (case orderLevel st inst sortBy h rows of
        Inl e \<Rightarrow> Inl e
      | Inr (res, h') \<Rightarrow> Inr (arrayAt h' res))"

text \<open>
  The rows of the forest under a list of rows, each with its descendants, down to
  \<open>n\<close> levels below the list.
\<close>

fun rowsWithin :: "nat \<Rightarrow> 'v heap \<Rightarrow> addr list \<Rightarrow> addr list" where
  "rowsWithin n h [] = []"
| "rowsWithin n h (r # rs) =
     (r # (case subRows (rowAt h r) of
             None \<Rightarrow> []
           | Some s \<Rightarrow> (case n of 0 \<Rightarrow> [] | Suc m \<Rightarrow> rowsWithin m h (arrayAt h s))))
     @ rowsWithin n h rs"

text \<open>The forest under a list of rows has at most \<open>n\<close> levels below the list.\<close>

fun depthOK :: "nat \<Rightarrow> 'v heap \<Rightarrow> addr list \<Rightarrow> bool" where
  "depthOK n h [] = True"
| "depthOK n h (r # rs) =
     ((case subRows (rowAt h r) of
         None \<Rightarrow> True
       | Some s \<Rightarrow> (case n of 0 \<Rightarrow> False | Suc m \<Rightarrow> depthOK m h (arrayAt h s)))
      \<and> depthOK n h rs)"

text \<open>Every \<open>subRows\<close> array of the given rows has been allocated.\<close>

definition allocatedRows :: "'v heap \<Rightarrow> addr list \<Rightarrow> bool" where
  "allocatedRows h rs =
     list_all (\<lambda>r. case subRows (rowAt h r) of None \<Rightarrow> True | Some s \<Rightarrow> s < nextArray h) rs"

text \<open>
  A forest as the data model has it: finitely deep, every row object in one place only
  (each row owns its \<open>subRows\<close> exclusively), every array allocated.
\<close>

definition forest :: "nat \<Rightarrow> 'v heap \<Rightarrow> addr list \<Rightarrow> bool" where
  "forest n h rs =
     (depthOK n h rs \<and> distinct (rowsWithin n h rs) \<and> allocatedRows h (rowsWithin n h rs))"

text \<open>
  What a run leaves alone, from the heap before to the heap after: no array that
  existed before is changed, no row loses or changes its cell values, and a row has
  \<open>subRows\<close> after exactly when it had before.
\<close>

definition keeps :: "'v heap \<Rightarrow> 'v heap \<Rightarrow> bool" where
  "keeps h h' =
     (nextArray h \<le> nextArray h'
      \<and> (\<forall>a. a < nextArray h \<longrightarrow> arrayAt h' a = arrayAt h a)
      \<and> (\<forall>r. row_values (rowAt h' r) = row_values (rowAt h r))
      \<and> (\<forall>r. (subRows (rowAt h' r) = None) = (subRows (rowAt h r) = None)))"

text \<open>
  The forest under the rows \<open>rs\<close> of the heap \<open>h\<close> is sorted in the heap \<open>h'\<close>: rows
  outside the forest are as they were, and every row of the forest that had \<open>subRows\<close>
  now refers to a new array, which holds the ordering of its old \<open>subRows\<close>.
\<close>

definition sortedBelow ::
  "nat \<Rightarrow> 'v globals \<Rightarrow> ('v, 'x) instance_scheme \<Rightarrow> criterion list \<Rightarrow>
     'v heap \<Rightarrow> addr list \<Rightarrow> 'v heap \<Rightarrow> bool" where
  "sortedBelow n st inst sortBy h rs h' =
     (keeps h h'
      \<and> (\<forall>r. r \<notin> set (rowsWithin n h rs) \<longrightarrow> rowAt h' r = rowAt h r)
      \<and> (\<forall>r\<in>set (rowsWithin n h rs). \<forall>s. subRows (rowAt h r) = Some s \<longrightarrow>
            (\<exists>s'. subRows (rowAt h' r) = Some s' \<and> nextArray h \<le> s' \<and> s' < nextArray h'
                 \<and> orderedContents st inst sortBy h s = Inr (arrayAt h' s'))))"

text \<open>One element occurs in a list before another.\<close>

fun occursBefore :: "'a \<Rightarrow> 'a \<Rightarrow> 'a list \<Rightarrow> bool" where
  "occursBefore a b [] = False"
| "occursBefore a b (x # xs) = ((x = a \<and> b \<in> set xs) \<or> occursBefore a b xs)"

section \<open>Example data\<close>

text \<open>A table with two columns, \<open>a\<close> (ascending first) and \<open>b\<close> (descending first).\<close>

definition exInst :: "int instance" where
  "exInst = \<lparr>columns = [\<lparr>column_id = ''a'', sortType = SortTypeUndefined, sortDescFirst = JBool False, sortInverted = Undefined\<rparr>,
                         \<lparr>column_id = ''b'', sortType = SortTypeUndefined, sortDescFirst = JBool True, sortInverted = Undefined\<rparr>],
             orderByFn = intoNewArray defaultOrderByFn, userSortTypes = None, manualSorting = False,
             disableSortRemove = False, disableMultiRemove = False, disableMultiSort = False\<rparr>"

text \<open>A comparator that returns 1 when it is called with a truthy direction and 0 otherwise.\<close>

definition directionProbe :: "int comparator" where
  "directionProbe x y desc = (if truthy desc then 1 else 0)"

text \<open>
  \<open>Object(x, y, desc)\<close> is its first argument as an object; where a number is expected
  it counts as \<open>x\<close>.
\<close>

definition objectConstructor :: "int comparator" where
  "objectConstructor x y desc = x"

text \<open>
  A built-in registry over integer cells, with the exports \<open>alphanumeric\<close> and
  \<open>basic\<close>, and the \<open>constructor\<close> member of \<open>Object.prototype\<close>.
\<close>

definition exTypes :: "int globals" where
  "exTypes = \<lparr>alphanumeric = (\<lambda>x y desc. if x < y then - 1 else if y < x then 1 else 0),
              otherSortTypes = [''basic'' \<mapsto> (\<lambda>x y desc. x - y)],
              objectPrototype = [''constructor'' \<mapsto> objectConstructor]\<rparr>"

text \<open>
  A manually sorted table whose column \<open>a\<close> is inverted and sorts with the probe, and
  whose column \<open>b\<close> names a comparator that both registries hold.
\<close>

definition invertedInst :: "int instance" where
  "invertedInst = \<lparr>columns = [\<lparr>column_id = ''a'', sortType = SortTypeFn directionProbe, sortDescFirst = Undefined, sortInverted = JBool True\<rparr>,
                               \<lparr>column_id = ''b'', sortType = SortTypeName ''basic'', sortDescFirst = Undefined, sortInverted = Undefined\<rparr>],
             orderByFn = intoNewArray defaultOrderByFn, userSortTypes = Some [''basic'' \<mapsto> (\<lambda>x y desc. y - x)], manualSorting = True,
             disableSortRemove = False, disableMultiRemove = False, disableMultiSort = False\<rparr>"

text \<open>
  A two-level forest. The array 0 holds the rows 10 (\<open>a = 2\<close>) and 11 (\<open>a = 1\<close>); row 10
  owns the array 1, which holds the rows 12 (\<open>a = 5\<close>) and 13 (\<open>a = 4\<close>).
\<close>

definition exRow :: "int \<Rightarrow> addr option \<Rightarrow> int row" where
  "exRow v sub = \<lparr>row_values = (\<lambda>c. if c = ''a'' then v else 0), subRows = sub\<rparr>"

definition exHeap :: "int heap" where
  "exHeap = \<lparr>rowAt = (\<lambda>r. if r = 10 then exRow 2 (Some 1)
                          else if r = 11 then exRow 1 None
                          else if r = 12 then exRow 5 None
                          else if r = 13 then exRow 4 None
                          else exRow 0 None),
             arrayAt = (\<lambda>a. if a = 0 then [10, 11] else if a = 1 then [12, 13] else []),
             nextArray = 2\<rparr>"

text \<open>
  A sorting table whose one column \<open>a\<close> is inverted and sorts with the probe.
\<close>

definition probeInst :: "int instance" where
  "probeInst = \<lparr>columns = [\<lparr>column_id = ''a'', sortType = SortTypeFn directionProbe, sortDescFirst = Undefined, sortInverted = JBool True\<rparr>],
             orderByFn = intoNewArray defaultOrderByFn, userSortTypes = None, manualSorting = False,
             disableSortRemove = False, disableMultiRemove = False, disableMultiSort = False\<rparr>"

text \<open>
  A sorting table whose one column \<open>a\<close> names the sort type "constructor", with no
  user registry.
\<close>

definition constructorInst :: "int instance" where
  "constructorInst = \<lparr>columns = [\<lparr>column_id = ''a'', sortType = SortTypeName ''constructor'', sortDescFirst = Undefined, sortInverted = Undefined\<rparr>],
             orderByFn = intoNewArray defaultOrderByFn, userSortTypes = None, manualSorting = False,
             disableSortRemove = False, disableMultiRemove = False, disableMultiSort = False\<rparr>"

text \<open>
  A table like the first, but with the \<open>orderByFn\<close> that returns the array it was
  given.
\<close>

definition sameArrayInst :: "int instance" where
  "sameArrayInst = exInst\<lparr>orderByFn := (\<lambda>h arr funcs dirs. (arr, h))\<rparr>"

text \<open>One level with a tie: the rows 20 and 22 both have \<open>a = 7\<close>, the row 21 has \<open>a = 3\<close>.\<close>

definition exTies :: "int heap" where
  "exTies = \<lparr>rowAt = (\<lambda>r. if r = 20 then exRow 7 None
                          else if r = 21 then exRow 3 None
                          else if r = 22 then exRow 7 None
                          else exRow 0 None),
             arrayAt = (\<lambda>a. if a = 0 then [20, 21, 22] else []),
             nextArray = 1\<rparr>"

text \<open>One criterion: column \<open>a\<close>, ascending; and the example forest ordered by it.\<close>

definition exSortBy :: "criterion list" where
  "exSortBy = [\<lparr>sort_id = ''a'', sort_desc = JBool False\<rparr>]"


text \<open>
  The example forest with other rows below row 10: the array 1 holds the rows 12
  (\<open>a = 1\<close>) and 13 (\<open>a = 9\<close>). The top level is as before.
\<close>

definition exDeep :: "int heap" where
  "exDeep = \<lparr>rowAt = (\<lambda>r. if r = 10 then exRow 2 (Some 1)
                          else if r = 11 then exRow 1 None
                          else if r = 12 then exRow 1 None
                          else if r = 13 then exRow 9 None
                          else exRow 0 None),
             arrayAt = (\<lambda>a. if a = 0 then [10, 11] else if a = 1 then [12, 13] else []),
             nextArray = 2\<rparr>"

section \<open>Properties of toggleSortBy\<close>

lemma findIndex_ge: "- 1 \<le> findIndex P xs"
  by (induction xs) (auto simp: Let_def)

lemma findIndex_neg_iff: "findIndex P xs < 0 \<longleftrightarrow> (\<forall>x\<in>set xs. \<not> P x)"
  using findIndex_ge [of P] by (induction xs) (auto simp: Let_def)

lemma findIndex_none: "find P xs = None \<Longrightarrow> findIndex P xs = - 1"
  by (induction xs) (auto simp: Let_def split: if_splits)

lemma find_None_set: "find P xs = None \<longleftrightarrow> (\<forall>x\<in>set xs. \<not> P x)"
  by (induction xs) auto

lemma findIndex_last_iff:
  "xs \<noteq> [] \<Longrightarrow>
   findIndex P xs = int (length xs) - 1 \<longleftrightarrow> P (last xs) \<and> (\<forall>x\<in>set (butlast xs). \<not> P x)"
proof (induction xs)
  case Nil
  then show ?case by simp
next
  case (Cons x xs)
  show ?case
  proof (cases "xs = []")
    case True
    then show ?thesis by simp
  next
    case False
    have ge: "- 1 \<le> findIndex P xs" by (rule findIndex_ge)
    from False Cons.IH
    have ih: "findIndex P xs = int (length xs) - 1 \<longleftrightarrow> P (last xs) \<and> (\<forall>x\<in>set (butlast xs). \<not> P x)"
      by simp
    from False have len: "0 < length xs" by simp
    show ?thesis
    proof (cases "P x")
      case True
      with False len show ?thesis by auto
    next
      case nP: False
      show ?thesis
      proof (cases "findIndex P xs < 0")
        case True
        then have "\<forall>x\<in>set xs. \<not> P x" by (simp add: findIndex_neg_iff)
        moreover from False have "last xs \<in> set xs" by simp
        ultimately have "\<not> P (last xs)" by blast
        with True nP False len show ?thesis by (auto simp: Let_def)
      next
        case nneg: False
        with nP False ih show ?thesis by (auto simp: Let_def)
      qed
    qed
  qed
qed

lemma baseAction_single:
  assumes "disableMultiSort inst \<or> \<not> multi"
  shows "baseAction inst sortBy columnID multi =
     (if sortBy \<noteq> [] \<and> sort_id (last sortBy) = columnID
         \<and> columnID \<notin> sort_id ` set (butlast sortBy)
      then Toggle else Replace)"
proof (cases "sortBy = []")
  case True
  with assms show ?thesis by (auto simp: baseAction_def existingSortBy_def existingIndex_def)
next
  case False
  have ex: "existingSortBy sortBy columnID \<noteq> None" if "sort_id (last sortBy) = columnID"
  proof -
    from False have "last sortBy \<in> set sortBy" by simp
    with that show ?thesis by (auto simp: existingSortBy_def find_None_set)
  qed
  from False assms ex show ?thesis
    unfolding baseAction_def existingIndex_def
    by (auto simp: findIndex_last_iff [OF False])
qed

lemma baseAction_Toggle_existing:
  "baseAction inst sortBy columnID multi = Toggle \<Longrightarrow> \<exists>e. existingSortBy sortBy columnID = Some e"
  by (auto simp: baseAction_def split: if_splits)

lemma existing_id:
  "existingSortBy sortBy columnID = Some e \<Longrightarrow> sort_id e = columnID \<and> e \<in> set sortBy"
  unfolding existingSortBy_def by (induction sortBy) (auto split: if_splits)

lemma mapE_toggleEntry:
  assumes "existingSortBy sortBy columnID = Some e"
  shows "mapE (toggleEntry (Some e) columnID desc) xs =
     Inr (map (\<lambda>d. if sort_id d = columnID
                    then d\<lparr>sort_desc := (if hasDescDefined desc then desc else JBool (\<not> truthy (sort_desc e)))\<rparr>
                    else d) xs)"
  by (induction xs) (auto simp: toggleEntry_def)

text \<open>
  C3: a toggle becomes a removal exactly when no direction was given, removal is not
  disabled, multi-removal is not disabled when \<open>multi\<close> is set, and the existing
  direction is at the boundary \<open>(existing.desc && !sortDescFirst) || (!existing.desc &&
  sortDescFirst)\<close>; any other action is left as it is. For a column with
  \<open>sortDescFirst = false\<close>, single-mode toggles without a direction go from \<open>[]\<close> to
  \<open>desc: false\<close>, to \<open>desc: true\<close> and back to \<open>[]\<close>; with \<open>disableSortRemove\<close>
  the one criterion is flipped at every toggle and the list is never empty.
\<close>

theorem toggle_downgrade_cycle:
  assumes col: "findColumn (columns inst) columnID = Some column"
  shows "(baseAction inst sortBy columnID multi = Toggle \<longrightarrow>
            (\<exists>e. existingSortBy sortBy columnID = Some e \<and>
                 finalAction inst sortBy (sortDescFirst column) columnID desc multi =
                   Inr (if \<not> hasDescDefined desc \<and> \<not> disableSortRemove inst
                           \<and> (multi \<longrightarrow> \<not> disableMultiRemove inst)
                           \<and> ((truthy (sort_desc e) \<and> \<not> truthy (sortDescFirst column))
                               \<or> (\<not> truthy (sort_desc e) \<and> truthy (sortDescFirst column)))
                        then Remove else Toggle)))
       \<and> (baseAction inst sortBy columnID multi \<noteq> Toggle \<longrightarrow>
            finalAction inst sortBy (sortDescFirst column) columnID desc multi =
              Inr (baseAction inst sortBy columnID multi))
       \<and> (sortDescFirst column = JBool False \<and> \<not> disableSortRemove inst \<and> \<not> hasDescDefined desc \<longrightarrow>
            toggleSortBy inst [] columnID desc False
              = Inr [\<lparr>sort_id = columnID, sort_desc = JBool False\<rparr>]
          \<and> toggleSortBy inst [\<lparr>sort_id = columnID, sort_desc = JBool False\<rparr>] columnID desc False
              = Inr [\<lparr>sort_id = columnID, sort_desc = JBool True\<rparr>]
          \<and> toggleSortBy inst [\<lparr>sort_id = columnID, sort_desc = JBool True\<rparr>] columnID desc False
              = Inr [])
       \<and> (sortDescFirst column = JBool False \<and> disableSortRemove inst \<and> \<not> hasDescDefined desc \<longrightarrow>
            toggleSortBy inst [] columnID desc False
              = Inr [\<lparr>sort_id = columnID, sort_desc = JBool False\<rparr>]
          \<and> (\<forall>d. toggleSortBy inst [\<lparr>sort_id = columnID, sort_desc = d\<rparr>] columnID desc False
              = Inr [\<lparr>sort_id = columnID, sort_desc = JBool (\<not> truthy d)\<rparr>]))"
proof (intro conjI impI)
  assume b: "baseAction inst sortBy columnID multi = Toggle"
  then obtain e where e: "existingSortBy sortBy columnID = Some e"
    using baseAction_Toggle_existing by blast
  show "\<exists>e. existingSortBy sortBy columnID = Some e \<and>
                 finalAction inst sortBy (sortDescFirst column) columnID desc multi =
                   Inr (if \<not> hasDescDefined desc \<and> \<not> disableSortRemove inst
                           \<and> (multi \<longrightarrow> \<not> disableMultiRemove inst)
                           \<and> ((truthy (sort_desc e) \<and> \<not> truthy (sortDescFirst column))
                               \<or> (\<not> truthy (sort_desc e) \<and> truthy (sortDescFirst column)))
                        then Remove else Toggle)"
    using b e by (auto simp: finalAction_def removalBoundary_def)
next
  assume "baseAction inst sortBy columnID multi \<noteq> Toggle"
  then show "finalAction inst sortBy (sortDescFirst column) columnID desc multi =
              Inr (baseAction inst sortBy columnID multi)"
    by (simp add: finalAction_def)
next
  assume a: "sortDescFirst column = JBool False \<and> \<not> disableSortRemove inst \<and> \<not> hasDescDefined desc"
  show "toggleSortBy inst [] columnID desc False
              = Inr [\<lparr>sort_id = columnID, sort_desc = JBool False\<rparr>]"
    using a col
    by (simp add: toggleSortBy_def finalAction_def baseAction_def existingSortBy_def
        existingIndex_def applyAction_def)
  show "toggleSortBy inst [\<lparr>sort_id = columnID, sort_desc = JBool False\<rparr>] columnID desc False
              = Inr [\<lparr>sort_id = columnID, sort_desc = JBool True\<rparr>]"
    using a col
    by (simp add: toggleSortBy_def finalAction_def baseAction_def existingSortBy_def
        existingIndex_def applyAction_def removalBoundary_def toggleEntry_def)
  show "toggleSortBy inst [\<lparr>sort_id = columnID, sort_desc = JBool True\<rparr>] columnID desc False
              = Inr []"
    using a col
    by (simp add: toggleSortBy_def finalAction_def baseAction_def existingSortBy_def
        existingIndex_def applyAction_def removalBoundary_def toggleEntry_def)
next
  assume a: "sortDescFirst column = JBool False \<and> disableSortRemove inst \<and> \<not> hasDescDefined desc"
  show "toggleSortBy inst [] columnID desc False
              = Inr [\<lparr>sort_id = columnID, sort_desc = JBool False\<rparr>]"
    using a col
    by (simp add: toggleSortBy_def finalAction_def baseAction_def existingSortBy_def
        existingIndex_def applyAction_def)
  show "\<forall>d. toggleSortBy inst [\<lparr>sort_id = columnID, sort_desc = d\<rparr>] columnID desc False
              = Inr [\<lparr>sort_id = columnID, sort_desc = JBool (\<not> truthy d)\<rparr>]"
    using a col
    by (simp add: toggleSortBy_def finalAction_def baseAction_def existingSortBy_def
        existingIndex_def applyAction_def removalBoundary_def toggleEntry_def)
qed

theorem toggle_downgrade_cycle_witness:
  "baseAction exInst [\<lparr>sort_id = ''a'', sort_desc = JBool True\<rparr>] ''a'' False = Toggle
   \<and> finalAction exInst [\<lparr>sort_id = ''a'', sort_desc = JBool True\<rparr>] (JBool False) ''a'' Undefined False = Inr Remove
   \<and> toggleSortBy exInst [] ''a'' Undefined False = Inr [\<lparr>sort_id = ''a'', sort_desc = JBool False\<rparr>]
   \<and> toggleSortBy exInst [\<lparr>sort_id = ''a'', sort_desc = JBool False\<rparr>] ''a'' Undefined False
        = Inr [\<lparr>sort_id = ''a'', sort_desc = JBool True\<rparr>]
   \<and> toggleSortBy exInst [\<lparr>sort_id = ''a'', sort_desc = JBool True\<rparr>] ''a'' Undefined False = Inr []
   \<and> toggleSortBy (exInst\<lparr>disableSortRemove := True\<rparr>) [\<lparr>sort_id = ''a'', sort_desc = JBool True\<rparr>] ''a'' Undefined False
        = Inr [\<lparr>sort_id = ''a'', sort_desc = JBool False\<rparr>]"
proof -
  let ?col = "\<lparr>column_id = ''a'', sortType = SortTypeUndefined :: int sortType, sortDescFirst = JBool False, sortInverted = Undefined\<rparr>"
  have c1: "findColumn (columns exInst) ''a'' = Some ?col"
    by (simp add: exInst_def findColumn_def)
  have c2: "findColumn (columns (exInst\<lparr>disableSortRemove := True\<rparr>)) ''a'' = Some ?col"
    by (simp add: exInst_def findColumn_def)
  have b: "baseAction exInst [\<lparr>sort_id = ''a'', sort_desc = JBool True\<rparr>] ''a'' False = Toggle"
    by (simp add: baseAction_def exInst_def existingSortBy_def existingIndex_def)
  have e: "existingSortBy [\<lparr>sort_id = ''a'', sort_desc = JBool True\<rparr>] ''a'' = Some \<lparr>sort_id = ''a'', sort_desc = JBool True\<rparr>"
    by (simp add: existingSortBy_def)
  have r: "\<not> disableSortRemove exInst" "disableSortRemove (exInst\<lparr>disableSortRemove := True\<rparr>)"
    by (simp_all add: exInst_def)
  have h: "\<not> hasDescDefined Undefined" by (simp add: hasDescDefined_def)
  show ?thesis
    using toggle_downgrade_cycle [OF c1, of "[\<lparr>sort_id = ''a'', sort_desc = JBool True\<rparr>]" False Undefined]
      toggle_downgrade_cycle [OF c2, of "[]" False Undefined]
      b e r h
    by simp
qed

lemma toggleSortBy_Replace:
  assumes "findColumn (columns inst) columnID = Some column"
    and "baseAction inst sortBy columnID multi = Replace"
  shows "toggleSortBy inst sortBy columnID desc multi =
     Inr [\<lparr>sort_id = columnID,
            sort_desc = (if hasDescDefined desc then desc else sortDescFirst column)\<rparr>]"
  using assms by (simp add: toggleSortBy_def finalAction_def applyAction_def)

lemma last_only_distinct:
  assumes "distinct (map sort_id sortBy)" "sortBy \<noteq> []" 
  shows "sort_id (last sortBy) \<notin> sort_id ` set (butlast sortBy)"
proof -
  from assms(2) have "sortBy = butlast sortBy @ [last sortBy]" by simp
  then have "distinct (map sort_id (butlast sortBy @ [last sortBy]))" using assms(1) by simp
  then show ?thesis by auto
qed

text \<open>
  C4: in single-sort mode the action is \<open>replace\<close>, and the list becomes the one
  criterion \<open>{id: columnID, desc: desc ?? sortDescFirst}\<close>, unless the criterion found for
  \<open>columnID\<close> is the last element of the list, when the action is \<open>toggle\<close>. The
  criterion found is the first with that id, so it is the last element when the last
  element has the id and no earlier one has; with one criterion per column that is when
  the last element has the id. From \<open>[{A, false}, {B, false}]\<close>, toggling \<open>A\<close> gives
  \<open>[{A, sortDescFirst of A}]\<close>.
\<close>

theorem single_mode_replace_or_toggle:
  assumes single: "disableMultiSort inst \<or> \<not> multi"
    and col: "findColumn (columns inst) columnID = Some column"
  shows "baseAction inst sortBy columnID multi =
           (if sortBy \<noteq> [] \<and> sort_id (last sortBy) = columnID
               \<and> columnID \<notin> sort_id ` set (butlast sortBy)
            then Toggle else Replace)
       \<and> (distinct (map sort_id sortBy) \<longrightarrow>
            baseAction inst sortBy columnID multi =
              (if sortBy \<noteq> [] \<and> sort_id (last sortBy) = columnID then Toggle else Replace))
       \<and> (baseAction inst sortBy columnID multi = Replace \<longrightarrow>
            toggleSortBy inst sortBy columnID desc multi =
              Inr [\<lparr>sort_id = columnID,
                     sort_desc = (if hasDescDefined desc then desc else sortDescFirst column)\<rparr>])
       \<and> (columnID \<noteq> other \<and> \<not> hasDescDefined desc \<longrightarrow>
            toggleSortBy inst
              [\<lparr>sort_id = columnID, sort_desc = JBool False\<rparr>, \<lparr>sort_id = other, sort_desc = JBool False\<rparr>]
              columnID desc multi
            = Inr [\<lparr>sort_id = columnID, sort_desc = sortDescFirst column\<rparr>])"
proof (intro conjI impI)
  show g: "baseAction inst sortBy columnID multi =
           (if sortBy \<noteq> [] \<and> sort_id (last sortBy) = columnID
               \<and> columnID \<notin> sort_id ` set (butlast sortBy)
            then Toggle else Replace)"
    by (rule baseAction_single [OF single])
  show "baseAction inst sortBy columnID multi =
              (if sortBy \<noteq> [] \<and> sort_id (last sortBy) = columnID then Toggle else Replace)"
    if "distinct (map sort_id sortBy)"
    using g last_only_distinct [OF that] by auto
  show "toggleSortBy inst sortBy columnID desc multi =
              Inr [\<lparr>sort_id = columnID,
                     sort_desc = (if hasDescDefined desc then desc else sortDescFirst column)\<rparr>]"
    if "baseAction inst sortBy columnID multi = Replace"
    by (rule toggleSortBy_Replace [OF col that])
  show "toggleSortBy inst
              [\<lparr>sort_id = columnID, sort_desc = JBool False\<rparr>, \<lparr>sort_id = other, sort_desc = JBool False\<rparr>]
              columnID desc multi
            = Inr [\<lparr>sort_id = columnID, sort_desc = sortDescFirst column\<rparr>]"
    if a: "columnID \<noteq> other \<and> \<not> hasDescDefined desc"
  proof -
    have "baseAction inst
              [\<lparr>sort_id = columnID, sort_desc = JBool False\<rparr>, \<lparr>sort_id = other, sort_desc = JBool False\<rparr>]
              columnID multi = Replace"
      using a by (simp add: baseAction_single [OF single])
    from toggleSortBy_Replace [OF col this, of desc] a show ?thesis by simp
  qed
qed

theorem single_mode_replace_or_toggle_witness:
  "(disableMultiSort exInst \<or> \<not> False)
   \<and> baseAction exInst [\<lparr>sort_id = ''a'', sort_desc = JBool False\<rparr>, \<lparr>sort_id = ''b'', sort_desc = JBool False\<rparr>] ''a'' False = Replace
   \<and> baseAction exInst [\<lparr>sort_id = ''a'', sort_desc = JBool False\<rparr>, \<lparr>sort_id = ''b'', sort_desc = JBool False\<rparr>] ''b'' False = Toggle
   \<and> toggleSortBy exInst [\<lparr>sort_id = ''a'', sort_desc = JBool False\<rparr>, \<lparr>sort_id = ''b'', sort_desc = JBool False\<rparr>] ''a'' Undefined False
       = Inr [\<lparr>sort_id = ''a'', sort_desc = JBool False\<rparr>]
   \<and> toggleSortBy exInst [\<lparr>sort_id = ''b'', sort_desc = JBool True\<rparr>, \<lparr>sort_id = ''b'', sort_desc = JBool False\<rparr>] ''b'' (JBool True) False
       = Inr [\<lparr>sort_id = ''b'', sort_desc = JBool True\<rparr>]"
proof -
  let ?a = "\<lparr>column_id = ''a'', sortType = SortTypeUndefined :: int sortType, sortDescFirst = JBool False, sortInverted = Undefined\<rparr>"
  let ?b = "\<lparr>column_id = ''b'', sortType = SortTypeUndefined :: int sortType, sortDescFirst = JBool True, sortInverted = Undefined\<rparr>"
  have s: "disableMultiSort exInst \<or> \<not> False" by simp
  have ca: "findColumn (columns exInst) ''a'' = Some ?a"
    by (simp add: exInst_def findColumn_def)
  have cb: "findColumn (columns exInst) ''b'' = Some ?b"
    by (simp add: exInst_def findColumn_def)
  have h: "\<not> hasDescDefined Undefined" "hasDescDefined (JBool True)" by (simp_all add: hasDescDefined_def)
  show ?thesis
    using single_mode_replace_or_toggle [OF s ca,
        of "[\<lparr>sort_id = ''a'', sort_desc = JBool False\<rparr>, \<lparr>sort_id = ''b'', sort_desc = JBool False\<rparr>]" Undefined "''b''"]
      single_mode_replace_or_toggle [OF s cb,
        of "[\<lparr>sort_id = ''a'', sort_desc = JBool False\<rparr>, \<lparr>sort_id = ''b'', sort_desc = JBool False\<rparr>]" Undefined "''a''"]
      single_mode_replace_or_toggle [OF s cb,
        of "[\<lparr>sort_id = ''b'', sort_desc = JBool True\<rparr>, \<lparr>sort_id = ''b'', sort_desc = JBool False\<rparr>]" "JBool True" "''a''"]
      h
    by simp
qed

text \<open>
  C5: with multi-sort enabled and \<open>multi\<close> set, toggling a column that has no criterion
  appends \<open>{id: columnID, desc: desc ?? sortDescFirst}\<close> to the list and leaves the rest
  as it was; toggling \<open>A\<close> and then a different column \<open>B\<close> from the empty list gives
  \<open>[{A, ...}, {B, ...}]\<close>.
\<close>

theorem multi_mode_add_appends:
  assumes multi: "\<not> disableMultiSort inst" "multi"
    and col: "findColumn (columns inst) columnID = Some column"
  shows "(existingSortBy sortBy columnID = None \<longrightarrow>
            toggleSortBy inst sortBy columnID desc multi =
              Inr (sortBy @ [\<lparr>sort_id = columnID,
                               sort_desc = (if hasDescDefined desc then desc else sortDescFirst column)\<rparr>]))
       \<and> (findColumn (columns inst) other = Some column' \<and> other \<noteq> columnID \<longrightarrow>
            toggleSortBy inst [] columnID desc multi =
              Inr [\<lparr>sort_id = columnID,
                     sort_desc = (if hasDescDefined desc then desc else sortDescFirst column)\<rparr>]
          \<and> toggleSortBy inst
               [\<lparr>sort_id = columnID,
                  sort_desc = (if hasDescDefined desc then desc else sortDescFirst column)\<rparr>]
               other desc' multi =
              Inr [\<lparr>sort_id = columnID,
                     sort_desc = (if hasDescDefined desc then desc else sortDescFirst column)\<rparr>,
                   \<lparr>sort_id = other,
                     sort_desc = (if hasDescDefined desc' then desc' else sortDescFirst column')\<rparr>])"
  using multi col
  by (auto simp: toggleSortBy_def finalAction_def baseAction_def applyAction_def existingSortBy_def)

theorem multi_mode_add_appends_witness:
  "\<not> disableMultiSort exInst
   \<and> existingSortBy [\<lparr>sort_id = ''b'', sort_desc = JBool True\<rparr>] ''a'' = None
   \<and> toggleSortBy exInst [\<lparr>sort_id = ''b'', sort_desc = JBool True\<rparr>] ''a'' Undefined True
       = Inr [\<lparr>sort_id = ''b'', sort_desc = JBool True\<rparr>, \<lparr>sort_id = ''a'', sort_desc = JBool False\<rparr>]
   \<and> toggleSortBy exInst [] ''a'' Undefined True = Inr [\<lparr>sort_id = ''a'', sort_desc = JBool False\<rparr>]
   \<and> toggleSortBy exInst [\<lparr>sort_id = ''a'', sort_desc = JBool False\<rparr>] ''b'' Undefined True
       = Inr [\<lparr>sort_id = ''a'', sort_desc = JBool False\<rparr>, \<lparr>sort_id = ''b'', sort_desc = JBool True\<rparr>]"
proof -
  let ?a = "\<lparr>column_id = ''a'', sortType = SortTypeUndefined :: int sortType, sortDescFirst = JBool False, sortInverted = Undefined\<rparr>"
  let ?b = "\<lparr>column_id = ''b'', sortType = SortTypeUndefined :: int sortType, sortDescFirst = JBool True, sortInverted = Undefined\<rparr>"
  have m: "\<not> disableMultiSort exInst" by (simp add: exInst_def)
  have ca: "findColumn (columns exInst) ''a'' = Some ?a"
    by (simp add: exInst_def findColumn_def)
  have cb: "findColumn (columns exInst) ''b'' = Some ?b"
    by (simp add: exInst_def findColumn_def)
  have e: "existingSortBy [\<lparr>sort_id = ''b'', sort_desc = JBool True\<rparr>] ''a'' = None"
    by (simp add: existingSortBy_def)
  have h: "\<not> hasDescDefined Undefined" by (simp add: hasDescDefined_def)
  show ?thesis
    using multi_mode_add_appends [OF m TrueI ca, of "[\<lparr>sort_id = ''b'', sort_desc = JBool True\<rparr>]" Undefined "''b''" ?b Undefined]
      m e cb h
    by simp
qed

lemma toggled_ids:
  "map sort_id (map (\<lambda>d. if sort_id d = columnID then d\<lparr>sort_desc := v\<rparr> else d) xs) = map sort_id xs"
  by (induction xs) auto

lemma toggled_others:
  "filter (\<lambda>d. sort_id d \<noteq> columnID)
     (map (\<lambda>d. if sort_id d = columnID then d\<lparr>sort_desc := v\<rparr> else d) xs)
   = filter (\<lambda>d. sort_id d \<noteq> columnID) xs"
  by (induction xs) auto

lemma finalAction_cases:
  assumes "finalAction inst sortBy sdf columnID desc multi = Inr act"
  shows "act = baseAction inst sortBy columnID multi
       \<or> (act = Remove \<and> baseAction inst sortBy columnID multi = Toggle)"
  using assms
  by (auto simp: finalAction_def Let_def split: if_splits sum.splits)

lemma baseAction_Add_fresh:
  "baseAction inst sortBy columnID multi = Add \<Longrightarrow> columnID \<notin> sort_id ` set sortBy"
  by (auto simp: baseAction_def existingSortBy_def find_None_set split: if_splits)

lemma applyAction_Toggle:
  assumes "baseAction inst sortBy columnID multi = Toggle"
  shows "\<exists>v. applyAction Toggle sortBy sdf columnID desc =
     Inr (map (\<lambda>d. if sort_id d = columnID then d\<lparr>sort_desc := v\<rparr> else d) sortBy)"
proof -
  from assms obtain e where e: "existingSortBy sortBy columnID = Some e"
    using baseAction_Toggle_existing by blast
  show ?thesis
    unfolding applyAction_def using mapE_toggleEntry [OF e, of desc sortBy] e by auto
qed

text \<open>
  C9: from a list with at most one criterion per column, \<open>toggleSortBy\<close> returns a list
  with at most one criterion per column, whichever action applies; the toggle action
  keeps the ids in place and every other criterion unchanged, and the remove action
  keeps the other criteria in their order.
\<close>

theorem toggle_keeps_ids_unique:
  assumes uniq: "distinct (map sort_id sortBy)"
    and col: "findColumn (columns inst) columnID = Some column"
    and fin: "finalAction inst sortBy (sortDescFirst column) columnID desc multi = Inr act"
  shows "\<exists>newSortBy. toggleSortBy inst sortBy columnID desc multi = Inr newSortBy
       \<and> distinct (map sort_id newSortBy)
       \<and> (act = Toggle \<longrightarrow> map sort_id newSortBy = map sort_id sortBy
            \<and> filter (\<lambda>d. sort_id d \<noteq> columnID) newSortBy = filter (\<lambda>d. sort_id d \<noteq> columnID) sortBy)
       \<and> (act = Remove \<longrightarrow> newSortBy = filter (\<lambda>d. sort_id d \<noteq> columnID) sortBy)"
proof -
  have t: "toggleSortBy inst sortBy columnID desc multi
             = applyAction act sortBy (sortDescFirst column) columnID desc"
    using col fin by (simp add: toggleSortBy_def)
  show ?thesis
  proof (cases act)
    case Replace
    then show ?thesis using t by (simp add: applyAction_def)
  next
    case Add
    with finalAction_cases [OF fin] have "baseAction inst sortBy columnID multi = Add" by auto
    from baseAction_Add_fresh [OF this] Add uniq t show ?thesis
      by (simp add: applyAction_def)
  next
    case Toggle
    with finalAction_cases [OF fin] have "baseAction inst sortBy columnID multi = Toggle" by auto
    from applyAction_Toggle [OF this, of "sortDescFirst column" desc]
    obtain v where v: "applyAction Toggle sortBy (sortDescFirst column) columnID desc =
       Inr (map (\<lambda>d. if sort_id d = columnID then d\<lparr>sort_desc := v\<rparr> else d) sortBy)"
      by blast
    show ?thesis
      using t v Toggle uniq by (simp add: toggled_ids toggled_others del: map_map)
  next
    case Remove
    have "distinct (map sort_id (filter (\<lambda>d. sort_id d \<noteq> columnID) sortBy))"
      using uniq by (simp add: distinct_map_filter)
    with t Remove show ?thesis by (simp add: applyAction_def)
  qed
qed

lemma toggleSortBy_returns:
  assumes "findColumn (columns inst) columnID = Some column"
  shows "\<exists>newSortBy. toggleSortBy inst sortBy columnID desc multi = Inr newSortBy"
proof -
  have "\<exists>act. finalAction inst sortBy (sortDescFirst column) columnID desc multi = Inr act"
  proof (cases "baseAction inst sortBy columnID multi = Toggle")
    case True
    then obtain e where "existingSortBy sortBy columnID = Some e"
      using baseAction_Toggle_existing by blast
    with True show ?thesis
      by (simp add: finalAction_def removalBoundary_def)
  next
    case False
    then show ?thesis by (simp add: finalAction_def)
  qed
  then obtain act where
    fin: "finalAction inst sortBy (sortDescFirst column) columnID desc multi = Inr act"
    by blast
  have t: "toggleSortBy inst sortBy columnID desc multi
             = applyAction act sortBy (sortDescFirst column) columnID desc"
    using assms fin by (simp add: toggleSortBy_def)
  show ?thesis
  proof (cases act)
    case Toggle
    with finalAction_cases [OF fin] have "baseAction inst sortBy columnID multi = Toggle" by auto
    from applyAction_Toggle [OF this, of "sortDescFirst column" desc] t Toggle
    show ?thesis by auto
  qed (simp_all add: t applyAction_def)
qed

theorem toggle_keeps_ids_unique_witness:
  "distinct (map sort_id [\<lparr>sort_id = ''a'', sort_desc = JBool False\<rparr>, \<lparr>sort_id = ''b'', sort_desc = JBool True\<rparr>])
   \<and> finalAction exInst [\<lparr>sort_id = ''a'', sort_desc = JBool False\<rparr>, \<lparr>sort_id = ''b'', sort_desc = JBool True\<rparr>]
        (JBool False) ''a'' Undefined True = Inr Toggle
   \<and> toggleSortBy exInst [\<lparr>sort_id = ''a'', sort_desc = JBool False\<rparr>, \<lparr>sort_id = ''b'', sort_desc = JBool True\<rparr>]
        ''a'' Undefined True
       = Inr [\<lparr>sort_id = ''a'', sort_desc = JBool True\<rparr>, \<lparr>sort_id = ''b'', sort_desc = JBool True\<rparr>]
   \<and> finalAction exInst [\<lparr>sort_id = ''a'', sort_desc = JBool True\<rparr>, \<lparr>sort_id = ''b'', sort_desc = JBool True\<rparr>]
        (JBool False) ''a'' Undefined True = Inr Remove
   \<and> toggleSortBy exInst [\<lparr>sort_id = ''a'', sort_desc = JBool True\<rparr>, \<lparr>sort_id = ''b'', sort_desc = JBool True\<rparr>]
        ''a'' Undefined True
       = Inr [\<lparr>sort_id = ''b'', sort_desc = JBool True\<rparr>]"
proof -
  let ?a = "\<lparr>column_id = ''a'', sortType = SortTypeUndefined :: int sortType, sortDescFirst = JBool False, sortInverted = Undefined\<rparr>"
  let ?s1 = "[\<lparr>sort_id = ''a'', sort_desc = JBool False\<rparr>, \<lparr>sort_id = ''b'', sort_desc = JBool True\<rparr>]"
  let ?s2 = "[\<lparr>sort_id = ''a'', sort_desc = JBool True\<rparr>, \<lparr>sort_id = ''b'', sort_desc = JBool True\<rparr>]"
  have ca: "findColumn (columns exInst) ''a'' = Some ?a"
    by (simp add: exInst_def findColumn_def)
  have d1: "distinct (map sort_id ?s1)" and d2: "distinct (map sort_id ?s2)" by simp_all
  have f1: "finalAction exInst ?s1 (sortDescFirst ?a) ''a'' Undefined True = Inr Toggle"
    by (simp add: finalAction_def baseAction_def exInst_def existingSortBy_def
        removalBoundary_def hasDescDefined_def)
  have f2: "finalAction exInst ?s2 (sortDescFirst ?a) ''a'' Undefined True = Inr Remove"
    by (simp add: finalAction_def baseAction_def exInst_def existingSortBy_def
        removalBoundary_def hasDescDefined_def)
  have t1: "toggleSortBy exInst ?s1 ''a'' Undefined True = Inr ?s2"
    using ca f1
    by (simp add: toggleSortBy_def applyAction_def existingSortBy_def toggleEntry_def hasDescDefined_def)
  show ?thesis
    using toggle_keeps_ids_unique [OF d1 ca f1] toggle_keeps_ids_unique [OF d2 ca f2] f1 f2 t1
    by simp
qed

section \<open>Properties of the comparator and direction resolution\<close>

lemma mapE_Inr_set:
  "mapE f xs = Inr ys \<Longrightarrow> \<forall>y\<in>set ys. \<exists>x\<in>set xs. f x = Inr y"
  by (induction xs arbitrary: ys) (auto split: sum.splits)

lemma mapE_total:
  "\<forall>x\<in>set xs. \<exists>y. f x = Inr y \<Longrightarrow> \<exists>ys. mapE f xs = Inr ys"
  by (induction xs) (auto split: sum.splits)

lemma mapE_map:
  "\<forall>x\<in>set xs. f x = Inr (g x) \<Longrightarrow> mapE f xs = Inr (map g xs)"
  by (induction xs) auto

text \<open>
  The comparator of a criterion is the first that the spec's stages yield whenever the
  \<open>sortType\<close> is a function, or its key is an entry of the user registry, or no member
  of \<open>Object.prototype\<close> has that key.
\<close>

lemma sortMethod_first_stage:
  assumes "isFunction ty \<noteq> None \<or> registryEntry reg (propertyKey ty) \<noteq> None
           \<or> objectPrototype st (propertyKey ty) = None"
  shows "firstCapable (resolutionStages st reg ty) = Some (sortMethod st reg ty)"
  using assms
  by (cases ty)
    (auto simp: sortMethod_def resolutionStages_def isFunction_def userLookup_def
        registryEntry_def split: option.splits)

text \<open>
  C6 fails in the code for a column whose \<open>sortType\<close> is "constructor" when no user
  registry is supplied. The column's \<open>sortType\<close> is no function, there is no
  user-supplied registry, and the built-in registry has no entry under that key, so
  the claim's order ends at the built-in \<open>alphanumeric\<close> comparator. The code reads the
  key on the empty object, finds the \<open>constructor\<close> member that every object inherits,
  and calls that as the comparator: on the cells 5 and 3 it yields 5, where
  \<open>alphanumeric\<close> yields 1.
\<close>

theorem constructor_key_resolves_to_inherited_member:
  "sortType (hd (columns constructorInst)) = SortTypeName ''constructor''
   \<and> isFunction (sortType (hd (columns constructorInst))) = None
   \<and> userSortTypes constructorInst = None
   \<and> registryEntry (userSortTypes constructorInst) ''constructor'' = None
   \<and> builtinLookup exTypes ''constructor'' = None
   \<and> firstCapable (resolutionStages exTypes (userSortTypes constructorInst)
          (sortType (hd (columns constructorInst)))) = Some (alphanumeric exTypes)
   \<and> sortMethod exTypes (userSortTypes constructorInst) (sortType (hd (columns constructorInst)))
       = objectConstructor
   \<and> projr (sortFn exTypes constructorInst \<lparr>sort_id = ''a'', sort_desc = JBool False\<rparr>)
        (exRow 5 None) (exRow 3 None) = 5
   \<and> alphanumeric exTypes 5 3 (JBool False) = 1"
  by (simp add: constructorInst_def isFunction_def builtinLookup_def exTypes_def sortMethod_def
      userLookup_def sortFn_def findColumn_def exRow_def objectConstructor_def
      registryEntry_def resolutionStages_def)

text \<open>
  C1, as the code has it: the comparator of a criterion is called with the cells of the
  two rows and with the criterion's own \<open>desc\<close>, whether or not the column sets
  \<open>sortInverted\<close>. What \<open>sortInverted\<close> changes is the direction flag handed to
  \<open>orderByFn\<close>: it is \<open>!desc\<close> for a plain column and \<open>desc\<close> for an inverted one. The
  call of \<open>orderByFn\<close> gets the array, these comparators and these flags, one of each
  per criterion.
\<close>

theorem comparator_gets_desc_orderByFn_gets_flag:
  "(\<forall>(srt :: criterion) column. findColumn (columns inst) (sort_id srt) = Some column \<longrightarrow>
      (\<exists>f. sortFn st inst srt = Inr f
          \<and> (\<forall>a b. f a b = sortMethod st (userSortTypes inst) (sortType column)
                       (row_values a (sort_id srt)) (row_values b (sort_id srt)) (sort_desc srt)))
      \<and> sortDir inst srt =
          Inr (if truthy (sortInverted column) then sort_desc srt
               else JBool (\<not> truthy (sort_desc srt))))
   \<and> ((\<forall>c\<in>set sortBy. findColumn (columns inst) (sort_id c) \<noteq> None) \<longrightarrow>
        orderLevel st inst sortBy h rows =
          Inr (orderByFn inst h rows
                 (map (\<lambda>srt a b.
                         sortMethod st (userSortTypes inst)
                           (sortType (the (findColumn (columns inst) (sort_id srt))))
                           (row_values (rowAt h a) (sort_id srt))
                           (row_values (rowAt h b) (sort_id srt)) (sort_desc srt))
                    sortBy)
                 (map (\<lambda>srt.
                         if truthy (sortInverted (the (findColumn (columns inst) (sort_id srt))))
                         then sort_desc srt else JBool (\<not> truthy (sort_desc srt)))
                    sortBy)))"
proof (intro conjI allI impI)
  fix srt :: criterion and column
  assume c: "findColumn (columns inst) (sort_id srt) = Some column"
  then show "\<exists>f. sortFn st inst srt = Inr f
          \<and> (\<forall>a b. f a b = sortMethod st (userSortTypes inst) (sortType column)
                       (row_values a (sort_id srt)) (row_values b (sort_id srt)) (sort_desc srt))"
    by (simp add: sortFn_def)
  from c show "sortDir inst srt =
          Inr (if truthy (sortInverted column) then sort_desc srt
               else JBool (\<not> truthy (sort_desc srt)))"
    by (simp add: sortDir_def)
next
  assume cols: "\<forall>c\<in>set sortBy. findColumn (columns inst) (sort_id c) \<noteq> None"
  let ?cmp = "\<lambda>srt (a :: 'a row) (b :: 'a row).
                 sortMethod st (userSortTypes inst)
                   (sortType (the (findColumn (columns inst) (sort_id srt))))
                   (row_values a (sort_id srt)) (row_values b (sort_id srt)) (sort_desc srt)"
  let ?dir = "\<lambda>srt. if truthy (sortInverted (the (findColumn (columns inst) (sort_id srt))))
                     then sort_desc srt else JBool (\<not> truthy (sort_desc srt))"
  have "\<forall>srt\<in>set sortBy. sortFn st inst srt = Inr (?cmp srt)"
    using cols by (auto simp: sortFn_def)
  from mapE_map [OF this] have f: "mapE (sortFn st inst) sortBy = Inr (map ?cmp sortBy)" .
  have "\<forall>srt\<in>set sortBy. sortDir inst srt = Inr (?dir srt)"
    using cols by (auto simp: sortDir_def)
  from mapE_map [OF this] have d: "mapE (sortDir inst) sortBy = Inr (map ?dir sortBy)" .
  show "orderLevel st inst sortBy h rows =
          Inr (orderByFn inst h rows
                 (map (\<lambda>srt a b.
                         sortMethod st (userSortTypes inst)
                           (sortType (the (findColumn (columns inst) (sort_id srt))))
                           (row_values (rowAt h a) (sort_id srt))
                           (row_values (rowAt h b) (sort_id srt)) (sort_desc srt))
                    sortBy)
                 (map ?dir sortBy))"
    by (simp add: orderLevel_def f d comp_def)
qed

theorem comparator_gets_desc_orderByFn_gets_flag_witness:
  "findColumn (columns probeInst) ''a''
     = Some \<lparr>column_id = ''a'', sortType = SortTypeFn directionProbe,
             sortDescFirst = Undefined, sortInverted = JBool True\<rparr>
   \<and> sortDir probeInst \<lparr>sort_id = ''a'', sort_desc = JBool False\<rparr> = Inr (JBool False)
   \<and> sortDir exInst \<lparr>sort_id = ''a'', sort_desc = JBool False\<rparr> = Inr (JBool True)
   \<and> orderLevel exTypes probeInst exSortBy exHeap 0 =
        Inr (orderByFn probeInst exHeap 0
               [\<lambda>a b. directionProbe (row_values (rowAt exHeap a) ''a'')
                         (row_values (rowAt exHeap b) ''a'') (JBool False)]
               [JBool False])"
proof -
  have c: "findColumn (columns probeInst) ''a''
     = Some \<lparr>column_id = ''a'', sortType = SortTypeFn directionProbe,
             sortDescFirst = Undefined, sortInverted = JBool True\<rparr>"
    by (simp add: probeInst_def findColumn_def)
  have d: "findColumn (columns exInst) ''a''
     = Some \<lparr>column_id = ''a'', sortType = SortTypeUndefined,
             sortDescFirst = JBool False, sortInverted = Undefined\<rparr>"
    by (simp add: exInst_def findColumn_def)
  have cols: "\<forall>c\<in>set exSortBy. findColumn (columns probeInst) (sort_id c) \<noteq> None"
    by (simp add: exSortBy_def c)
  have m: "sortMethod exTypes (userSortTypes probeInst) (SortTypeFn directionProbe) = directionProbe"
    by (simp add: sortMethod_def isFunction_def)
  let ?crit = "\<lparr>sort_id = ''a'', sort_desc = JBool False\<rparr>"
  have c': "findColumn (columns probeInst) (sort_id ?crit)
     = Some \<lparr>column_id = ''a'', sortType = SortTypeFn directionProbe,
             sortDescFirst = Undefined, sortInverted = JBool True\<rparr>"
    using c by simp
  have d': "findColumn (columns exInst) (sort_id ?crit)
     = Some \<lparr>column_id = ''a'', sortType = SortTypeUndefined,
             sortDescFirst = JBool False, sortInverted = Undefined\<rparr>"
    using d by simp
  note t1 = comparator_gets_desc_orderByFn_gets_flag
              [of probeInst exTypes exSortBy exHeap 0, THEN conjunct1, rule_format, OF c',
               THEN conjunct2, simplified]
  note t2 = comparator_gets_desc_orderByFn_gets_flag
              [of exInst exTypes exSortBy exHeap 0, THEN conjunct1, rule_format, OF d',
               THEN conjunct2, simplified]
  note t3 = comparator_gets_desc_orderByFn_gets_flag
              [of probeInst exTypes exSortBy exHeap 0, THEN conjunct2, THEN mp, OF cols]
  from t3 have "orderLevel exTypes probeInst exSortBy exHeap 0 =
        Inr (orderByFn probeInst exHeap 0
               [\<lambda>a b. directionProbe (row_values (rowAt exHeap a) ''a'')
                         (row_values (rowAt exHeap b) ''a'') (JBool False)]
               [JBool False])"
    by (simp add: exSortBy_def c m)
  with t1 t2 c show ?thesis by simp
qed

text \<open>
  The claim C1 as stated fails on the sorting table \<open>probeInst\<close>: its column \<open>a\<close> is
  inverted and the criterion has \<open>desc = false\<close>, and the comparator handed to
  \<open>orderByFn\<close> calls the probe with \<open>false\<close>, not with \<open>true\<close>: on the rows 10 and 11 it
  returns 0, where a call with \<open>true\<close> returns 1.
\<close>

theorem comparator_direction_counterexample:
  "\<not> manualSorting probeInst
   \<and> exSortBy = [\<lparr>sort_id = ''a'', sort_desc = JBool False\<rparr>]
   \<and> truthy (sortInverted (hd (columns probeInst)))
   \<and> sortType (hd (columns probeInst)) = SortTypeFn directionProbe
   \<and> sortedRows 2 exTypes probeInst exSortBy exHeap 0 = sortData 2 exTypes probeInst exSortBy exHeap 0
   \<and> orderLevel exTypes probeInst exSortBy exHeap 0 =
        Inr (orderByFn probeInst exHeap 0
               [\<lambda>a b. directionProbe (row_values (rowAt exHeap a) ''a'')
                         (row_values (rowAt exHeap b) ''a'') (JBool False)]
               [JBool False])
   \<and> projr (sortFn exTypes probeInst (hd exSortBy)) (rowAt exHeap 10) (rowAt exHeap 11) = 0
   \<and> directionProbe 2 1 (JBool False) = 0
   \<and> directionProbe 2 1 (JBool True) = 1"
  by (simp add: sortedRows_def orderLevel_def exSortBy_def sortFn_def sortDir_def findColumn_def
      probeInst_def sortMethod_def isFunction_def directionProbe_def)

section \<open>Properties of the built-in composition\<close>

lemma set_insertRow: "set (insertRow c x ys) = insert x (set ys)"
  by (induction ys) auto

lemma set_defaultOrderByFn: "set (defaultOrderByFn arr funcs dirs) = set arr"
  unfolding defaultOrderByFn_def by (induction arr) (auto simp: set_insertRow)

lemma compareRows_all_equal:
  "\<forall>f\<in>set funcs. f a b = 0 \<Longrightarrow> compareRows funcs dirs a b = 0"
  by (induction funcs arbitrary: dirs) auto

lemma occursBefore_insertRow_kept:
  "occursBefore a b ys \<Longrightarrow> occursBefore a b (insertRow c x ys)"
  by (induction ys) (auto simp: set_insertRow)

lemma occursBefore_insertRow_new:
  "b \<in> set ys \<Longrightarrow> c a b \<le> 0 \<Longrightarrow> occursBefore a b (insertRow c a ys)"
  by (induction ys) (auto simp: set_insertRow)

lemma mset_insertRow: "mset (insertRow c x ys) = add_mset x (mset ys)"
  by (induction ys) auto

lemma mset_defaultOrderByFn: "mset (defaultOrderByFn arr funcs dirs) = mset arr"
  unfolding defaultOrderByFn_def by (induction arr) (auto simp: mset_insertRow)


lemma composition_stable:
  assumes before: "occursBefore a b arr"
    and equal: "\<forall>f\<in>set funcs. f a b = 0"
  shows "occursBefore a b (defaultOrderByFn arr funcs dirs)"
proof -
  have c: "compareRows funcs dirs a b \<le> 0"
    using compareRows_all_equal [OF equal] by simp
  from before show ?thesis
    unfolding defaultOrderByFn_def
  proof (induction arr)
    case Nil
    then show ?case by simp
  next
    case (Cons x xs)
    let ?sorted = "foldr (insertRow (compareRows funcs dirs)) xs []"
    have s: "set ?sorted = set xs"
      using set_defaultOrderByFn [of xs funcs dirs] by (simp add: defaultOrderByFn_def)
    from Cons.prems have "(x = a \<and> b \<in> set xs) \<or> occursBefore a b xs" by simp
    then show ?case
    proof
      assume "x = a \<and> b \<in> set xs"
      with s c show ?thesis by (simp add: occursBefore_insertRow_new)
    next
      assume "occursBefore a b xs"
      with Cons.IH show ?thesis by (simp add: occursBefore_insertRow_kept)
    qed
  qed
qed

lemma arrayAt_fst_newArray: "arrayAt (snd (newArray h xs)) (fst (newArray h xs)) = xs"
  by (simp add: newArray_def)

lemma orderedContents_intoNewArray:
  assumes "orderByFn inst = intoNewArray ord"
  shows "orderedContents st inst sortBy h rows =
     (case mapE (sortFn st inst) sortBy of
        Inl e \<Rightarrow> Inl e
      | Inr funcs \<Rightarrow>
          (case mapE (sortDir inst) sortBy of
             Inl e \<Rightarrow> Inl e
           | Inr dirs \<Rightarrow>
               Inr (ord (arrayAt h rows) (map (\<lambda>f a b. f (rowAt h a) (rowAt h b)) funcs) dirs)))"
  unfolding orderedContents_def orderLevel_def assms intoNewArray_def
  by (simp add: arrayAt_fst_newArray case_prod_beta split: sum.splits)

lemma sortFn_values_only:
  assumes "sortFn st inst srt = Inr f" "row_values a' = row_values a" "row_values b' = row_values b"
  shows "f a' b' = f a b"
  using assms by (auto simp: sortFn_def split: option.splits)

lemma insertRow_cong:
  "\<forall>y\<in>set ys. c x y = c' x y \<Longrightarrow> insertRow c x ys = insertRow c' x ys"
  by (induction ys) auto

lemma compareRows_map_cong:
  "\<forall>f\<in>set fs. F f a b = G f a b \<Longrightarrow>
   compareRows (map F fs) dirs a b = compareRows (map G fs) dirs a b"
  by (induction fs arbitrary: dirs) auto

lemma defaultOrderByFn_local:
  assumes "\<forall>f\<in>set fs. \<forall>a\<in>set xs. \<forall>b\<in>set xs. F f a b = G f a b"
  shows "defaultOrderByFn xs (map F fs) dirs = defaultOrderByFn xs (map G fs) dirs"
  using assms
proof (induction xs)
  case Nil
  show ?case by (simp add: defaultOrderByFn_def)
next
  case (Cons x xs)
  from Cons.prems have "\<forall>f\<in>set fs. \<forall>a\<in>set xs. \<forall>b\<in>set xs. F f a b = G f a b" by simp
  from Cons.IH [OF this]
  have ih: "defaultOrderByFn xs (map F fs) dirs = defaultOrderByFn xs (map G fs) dirs" .
  have "\<forall>y\<in>set (defaultOrderByFn xs (map G fs) dirs).
          compareRows (map F fs) dirs x y = compareRows (map G fs) dirs x y"
  proof
    fix y assume "y \<in> set (defaultOrderByFn xs (map G fs) dirs)"
    then have "y \<in> set xs" by (simp add: set_defaultOrderByFn)
    with Cons.prems have "\<forall>f\<in>set fs. F f x y = G f x y" by simp
    then show "compareRows (map F fs) dirs x y = compareRows (map G fs) dirs x y"
      by (rule compareRows_map_cong)
  qed
  then have "insertRow (compareRows (map F fs) dirs) x (defaultOrderByFn xs (map G fs) dirs)
      = insertRow (compareRows (map G fs) dirs) x (defaultOrderByFn xs (map G fs) dirs)"
    by (rule insertRow_cong)
  with ih show ?case by (simp add: defaultOrderByFn_def)
qed

text \<open>
  With the built-in composition, the order of a level depends on the cell values of the
  rows of that level only: any heap with the same array and the same values in these
  rows gives the same order, whatever its other rows hold.
\<close>

lemma orderedContents_level_local:
  assumes built: "orderByFn inst = intoNewArray defaultOrderByFn"
    and arr: "arrayAt h2 rows = arrayAt h rows"
    and vals: "\<forall>r\<in>set (arrayAt h rows). row_values (rowAt h2 r) = row_values (rowAt h r)"
  shows "orderedContents st inst sortBy h2 rows = orderedContents st inst sortBy h rows"
proof (cases "mapE (sortFn st inst) sortBy")
  case (Inl e)
  then show ?thesis by (simp add: orderedContents_intoNewArray [OF built])
next
  case (Inr funcs)
  have "\<forall>f\<in>set funcs. \<forall>a\<in>set (arrayAt h rows). \<forall>b\<in>set (arrayAt h rows).
          f (rowAt h2 a) (rowAt h2 b) = f (rowAt h a) (rowAt h b)"
  proof (intro ballI)
    fix f a b assume f: "f \<in> set funcs" and a: "a \<in> set (arrayAt h rows)"
      and b: "b \<in> set (arrayAt h rows)"
    from mapE_Inr_set [OF Inr] f obtain srt where "sortFn st inst srt = Inr f" by blast
    from sortFn_values_only [OF this] vals a b
    show "f (rowAt h2 a) (rowAt h2 b) = f (rowAt h a) (rowAt h b)" by blast
  qed
  from defaultOrderByFn_local
         [of funcs "arrayAt h rows" "\<lambda>f a b. f (rowAt h2 a) (rowAt h2 b)"
            "\<lambda>f a b. f (rowAt h a) (rowAt h b)", OF this]
  have "\<And>dirs. defaultOrderByFn (arrayAt h rows) (map (\<lambda>f a b. f (rowAt h2 a) (rowAt h2 b)) funcs) dirs
      = defaultOrderByFn (arrayAt h rows) (map (\<lambda>f a b. f (rowAt h a) (rowAt h b)) funcs) dirs" .
  then show ?thesis
    by (simp add: orderedContents_intoNewArray [OF built] Inr arr split: sum.splits)
qed

text \<open>
  C10: the built-in composition is stable. When a row stands before another in the
  input and every comparator finds the two equal, it stands before the other in the
  output; so it is in the array that the ordering of a level by the built-in composition
  returns, for two rows whose cells compare equal under every criterion.
\<close>

theorem default_composition_stable:
  assumes before: "occursBefore a b arr"
  shows "((\<forall>f\<in>set funcs. f a b = 0) \<longrightarrow> occursBefore a b (defaultOrderByFn arr funcs dirs))
       \<and> (orderByFn inst = intoNewArray defaultOrderByFn
            \<and> arrayAt h rows = arr
            \<and> orderedContents st inst sortBy h rows = Inr sortedData
            \<and> (\<forall>srt\<in>set sortBy. \<forall>column. findColumn (columns inst) (sort_id srt) = Some column \<longrightarrow>
                  sortMethod st (userSortTypes inst) (sortType column)
                    (row_values (rowAt h a) (sort_id srt)) (row_values (rowAt h b) (sort_id srt))
                    (sort_desc srt) = 0)
          \<longrightarrow> occursBefore a b sortedData)"
proof (intro conjI impI)
  assume "\<forall>f\<in>set funcs. f a b = 0"
  from composition_stable [OF before this] show "occursBefore a b (defaultOrderByFn arr funcs dirs)" .
next
  assume h: "orderByFn inst = intoNewArray defaultOrderByFn
            \<and> arrayAt h rows = arr
            \<and> orderedContents st inst sortBy h rows = Inr sortedData
            \<and> (\<forall>srt\<in>set sortBy. \<forall>column. findColumn (columns inst) (sort_id srt) = Some column \<longrightarrow>
                  sortMethod st (userSortTypes inst) (sortType column)
                    (row_values (rowAt h a) (sort_id srt)) (row_values (rowAt h b) (sort_id srt))
                    (sort_desc srt) = 0)"
  then have built: "orderByFn inst = intoNewArray defaultOrderByFn" by simp
  from h orderedContents_intoNewArray [OF built, of st sortBy h rows]
  obtain fs ds where fs: "mapE (sortFn st inst) sortBy = Inr fs"
    and sd: "sortedData = defaultOrderByFn arr (map (\<lambda>f a b. f (rowAt h a) (rowAt h b)) fs) ds"
    by (auto split: sum.splits)
  have "\<forall>g\<in>set (map (\<lambda>f a b. f (rowAt h a) (rowAt h b)) fs). g a b = 0"
  proof
    fix g assume "g \<in> set (map (\<lambda>f a b. f (rowAt h a) (rowAt h b)) fs)"
    then obtain f where f: "f \<in> set fs" and g: "g = (\<lambda>a b. f (rowAt h a) (rowAt h b))" by auto
    from mapE_Inr_set [OF fs] f obtain srt where s: "srt \<in> set sortBy" and sf: "sortFn st inst srt = Inr f"
      by blast
    from sf obtain column where c: "findColumn (columns inst) (sort_id srt) = Some column"
      and fd: "f = (\<lambda>a b. sortMethod st (userSortTypes inst) (sortType column)
                       (row_values a (sort_id srt)) (row_values b (sort_id srt)) (sort_desc srt))"
      by (auto simp: sortFn_def split: option.splits)
    from h s c have "sortMethod st (userSortTypes inst) (sortType column)
                    (row_values (rowAt h a) (sort_id srt)) (row_values (rowAt h b) (sort_id srt))
                    (sort_desc srt) = 0" by blast
    with g fd show "g a b = 0" by simp
  qed
  from composition_stable [OF before this] sd show "occursBefore a b sortedData" by simp
qed

theorem default_composition_stable_witness:
  "occursBefore (20::nat) 22 [20, 21, 22]
   \<and> orderByFn exInst = intoNewArray defaultOrderByFn
   \<and> arrayAt exTies 0 = [20, 21, 22]
   \<and> orderedContents exTypes exInst exSortBy exTies 0 = Inr [21, 20, 22]
   \<and> alphanumeric exTypes (row_values (rowAt exTies 20) ''a'') (row_values (rowAt exTies 22) ''a'') (JBool False) = 0
   \<and> occursBefore (20::nat) 22 [21, 20, 22]"
proof -
  have b: "occursBefore (20::nat) 22 [20, 21, 22]" by simp
  have o: "orderByFn exInst = intoNewArray defaultOrderByFn" by (simp add: exInst_def)
  have r: "arrayAt exTies 0 = [20, 21, 22]" by (simp add: exTies_def)
  have l: "orderedContents exTypes exInst exSortBy exTies 0 = Inr [21, 20, 22]"
    unfolding orderedContents_intoNewArray [OF o]
    by (simp add: exSortBy_def sortFn_def sortDir_def
      findColumn_def exInst_def exTypes_def exTies_def exRow_def sortMethod_def isFunction_def
      userLookup_def builtinLookup_def defaultOrderByFn_def)
  have e: "\<forall>srt\<in>set exSortBy. \<forall>column. findColumn (columns exInst) (sort_id srt) = Some column \<longrightarrow>
                  sortMethod exTypes (userSortTypes exInst) (sortType column)
                    (row_values (rowAt exTies 20) (sort_id srt)) (row_values (rowAt exTies 22) (sort_id srt))
                    (sort_desc srt) = 0"
    by (simp add: exSortBy_def findColumn_def exInst_def exTypes_def exTies_def exRow_def
        sortMethod_def isFunction_def userLookup_def builtinLookup_def)
  have a: "alphanumeric exTypes (row_values (rowAt exTies 20) ''a'') (row_values (rowAt exTies 22) ''a'') (JBool False) = 0"
    by (simp add: exTypes_def exTies_def exRow_def)
  from default_composition_stable [OF b, of "[]" "[]" exInst exTies 0 exTypes exSortBy "[21, 20, 22]"] o r l e
  have "occursBefore (20::nat) 22 [21, 20, 22]" by blast
  with b o r l a show ?thesis by blast
qed

section \<open>Properties of the ordering engine\<close>

text \<open>
  C7: when sorting is manual or there is no criterion, the rows come back as they are:
  the same array object, and a heap in which nothing was allocated or changed.
\<close>

theorem manual_or_empty_returns_rows:
  assumes "manualSorting inst \<or> sortBy = []"
  shows "sortedRows fuel st inst sortBy h rows = Inr (rows, h)"
  using assms by (simp add: sortedRows_def)

theorem manual_or_empty_returns_rows_witness:
  "manualSorting invertedInst
   \<and> sortedRows 0 exTypes invertedInst [\<lparr>sort_id = ''a'', sort_desc = JBool False\<rparr>] exHeap 0
       = Inr (0, exHeap)
   \<and> sortedRows 2 exTypes exInst [] exHeap 0 = Inr (0, exHeap)"
proof -
  have m: "manualSorting invertedInst" by (simp add: invertedInst_def)
  show ?thesis
    using manual_or_empty_returns_rows [of invertedInst "[\<lparr>sort_id = ''a'', sort_desc = JBool False\<rparr>]" 0 exTypes exHeap 0]
      manual_or_empty_returns_rows [of exInst "[]" 2 exTypes exHeap 0] m
    by simp
qed

subsection \<open>What a run leaves alone\<close>

lemma keeps_refl: "keeps h h"
  by (simp add: keeps_def)

lemma keeps_trans: "keeps h1 h2 \<Longrightarrow> keeps h2 h3 \<Longrightarrow> keeps h1 h3"
  unfolding keeps_def by auto

lemma keeps_newArray: "keeps h (snd (newArray h xs))"
  by (simp add: keeps_def newArray_def)

lemma nextArray_newArray: "nextArray (snd (newArray h xs)) = Suc (nextArray h)"
  by (simp add: newArray_def)


lemma arrayAt_newArray: "arrayAt (snd (newArray h xs)) a = (if a = nextArray h then xs else arrayAt h a)"
  by (simp add: newArray_def)

lemma rowAt_newArray: "rowAt (snd (newArray h xs)) = rowAt h"
  by (simp add: newArray_def)

lemma keeps_setSubRows:
  "subRows (rowAt h r) \<noteq> None \<Longrightarrow> keeps h (setSubRows h r v)"
  by (auto simp: keeps_def setSubRows_def)

lemma nextArray_setSubRows: "nextArray (setSubRows h r v) = nextArray h"
  by (simp add: setSubRows_def)

lemma arrayAt_setSubRows: "arrayAt (setSubRows h r v) = arrayAt h"
  by (simp add: setSubRows_def)

lemma rowAt_setSubRows:
  "rowAt (setSubRows h r v) x = (if x = r then (rowAt h r)\<lparr>subRows := Some v\<rparr> else rowAt h x)"
  by (simp add: setSubRows_def)

lemma keeps_intoNewArray: "keeps h (snd (intoNewArray ord h arr funcs dirs))"
  by (simp add: intoNewArray_def keeps_newArray)



subsection \<open>Forests in the heap\<close>

lemma rowsWithin_Cons: "rowsWithin n h (r # rs) = rowsWithin n h [r] @ rowsWithin n h rs"
  by simp

lemma mset_rowsWithin:
  "mset (rowsWithin n h rs) = (\<Sum>r\<in>#mset rs. mset (rowsWithin n h [r]))"
proof (induction rs)
  case Nil
  show ?case by simp
next
  case (Cons r rs)
  have "mset (rowsWithin n h (r # rs)) = mset (rowsWithin n h [r]) + mset (rowsWithin n h rs)"
    by (subst rowsWithin_Cons) simp
  with Cons show ?case by simp
qed

lemma rowsWithin_perm:
  assumes "mset xs = mset ys"
  shows "mset (rowsWithin n h xs) = mset (rowsWithin n h ys)"
proof -
  have "mset (rowsWithin n h xs) = (\<Sum>r\<in>#mset xs. mset (rowsWithin n h [r]))"
    by (rule mset_rowsWithin)
  also have "\<dots> = (\<Sum>r\<in>#mset ys. mset (rowsWithin n h [r]))"
    using assms by simp
  also have "\<dots> = mset (rowsWithin n h ys)"
    by (rule mset_rowsWithin [symmetric])
  finally show ?thesis .
qed

lemma depthOK_set:
  "depthOK n h rs \<longleftrightarrow> (\<forall>r\<in>set rs. depthOK n h [r])"
  by (induction rs) auto

lemma depthOK_perm: "set xs = set ys \<Longrightarrow> depthOK n h xs = depthOK n h ys"
  using depthOK_set [of n h xs] depthOK_set [of n h ys] by simp

lemma allocatedRows_set:
  "allocatedRows h rs \<longleftrightarrow> (\<forall>r\<in>set rs. \<forall>s. subRows (rowAt h r) = Some s \<longrightarrow> s < nextArray h)"
  by (auto simp: allocatedRows_def list_all_iff split: option.splits)

lemma forest_perm:
  assumes "mset xs = mset ys"
  shows "forest n h xs = forest n h ys"
proof -
  from assms have s: "set xs = set ys" by (rule mset_eq_setD)
  from rowsWithin_perm [OF assms] have m: "mset (rowsWithin n h xs) = mset (rowsWithin n h ys)" .
  from m have "set (rowsWithin n h xs) = set (rowsWithin n h ys)" by (rule mset_eq_setD)
  moreover from m have "distinct (rowsWithin n h xs) = distinct (rowsWithin n h ys)"
    by (rule mset_eq_imp_distinct_iff)
  ultimately show ?thesis
    using depthOK_perm [OF s, of n h] by (simp add: forest_def allocatedRows_set)
qed

lemma in_rowsWithin_head: "r \<in> set (rowsWithin n h (r # rs))"
  by simp

lemma in_rowsWithin_rest:
  "x \<in> set (rowsWithin n h rs) \<Longrightarrow> x \<in> set (rowsWithin n h (r # rs))"
  by simp

lemma in_rowsWithin_sub:
  "subRows (rowAt h r) = Some s \<Longrightarrow> x \<in> set (rowsWithin m h (arrayAt h s)) \<Longrightarrow>
   x \<in> set (rowsWithin (Suc m) h (r # rs))"
  by simp

lemma rowsWithin_agree:
  assumes "\<forall>r\<in>set (rowsWithin n h rs). rowAt h2 r = rowAt h r"
    and "\<forall>r\<in>set (rowsWithin n h rs). \<forall>s. subRows (rowAt h r) = Some s \<longrightarrow> arrayAt h2 s = arrayAt h s"
  shows "rowsWithin n h2 rs = rowsWithin n h rs \<and> depthOK n h2 rs = depthOK n h rs"
  using assms
proof (induction n h rs rule: rowsWithin.induct)
  case (1 n h)
  show ?case by simp
next
  case (2 n h r rs)
  have r: "rowAt h2 r = rowAt h r"
    using "2.prems"(1) in_rowsWithin_head [of r n h rs] by blast
  have p1: "\<forall>x\<in>set (rowsWithin n h rs). rowAt h2 x = rowAt h x"
    using "2.prems"(1) in_rowsWithin_rest [of _ n h rs r] by blast
  have p2: "\<forall>x\<in>set (rowsWithin n h rs). \<forall>s. subRows (rowAt h x) = Some s \<longrightarrow> arrayAt h2 s = arrayAt h s"
    using "2.prems"(2) in_rowsWithin_rest [of _ n h rs r] by blast
  from "2.IH"(2) [OF p1 p2]
  have rest: "rowsWithin n h2 rs = rowsWithin n h rs \<and> depthOK n h2 rs = depthOK n h rs" .
  show ?case
  proof (cases "subRows (rowAt h r)")
    case None
    with r rest show ?thesis by simp
  next
    case (Some s)
    show ?thesis
    proof (cases n)
      case 0
      with Some r rest show ?thesis by simp
    next
      case (Suc m)
      have a: "arrayAt h2 s = arrayAt h s"
        using "2.prems"(2) in_rowsWithin_head [of r n h rs] Some by blast
      have q1: "\<forall>x\<in>set (rowsWithin m h (arrayAt h s)). rowAt h2 x = rowAt h x"
        using "2.prems"(1) in_rowsWithin_sub [OF Some, of _ m rs] Suc by blast
      have q2: "\<forall>x\<in>set (rowsWithin m h (arrayAt h s)). \<forall>t. subRows (rowAt h x) = Some t \<longrightarrow> arrayAt h2 t = arrayAt h t"
        using "2.prems"(2) in_rowsWithin_sub [OF Some, of _ m rs] Suc by blast
      from "2.IH"(1) [OF Some Suc q1 q2]
      have "rowsWithin m h2 (arrayAt h s) = rowsWithin m h (arrayAt h s)
          \<and> depthOK m h2 (arrayAt h s) = depthOK m h (arrayAt h s)" .
      with Some Suc r rest a show ?thesis by simp
    qed
  qed
qed

lemma orderedContents_agree:
  assumes pure: "orderByFn inst = intoNewArray ord"
    and vals: "\<forall>r. row_values (rowAt h2 r) = row_values (rowAt h r)"
    and arr: "arrayAt h2 rows = arrayAt h rows"
  shows "orderedContents st inst sortBy h2 rows = orderedContents st inst sortBy h rows"
proof (cases "mapE (sortFn st inst) sortBy")
  case (Inl e)
  then show ?thesis by (simp add: orderedContents_intoNewArray [OF pure])
next
  case (Inr funcs)
  have m: "map (\<lambda>f a b. f (rowAt h2 a) (rowAt h2 b)) funcs = map (\<lambda>f a b. f (rowAt h a) (rowAt h b)) funcs"
  proof (rule map_cong [OF refl])
    fix f assume "f \<in> set funcs"
    with mapE_Inr_set [OF Inr] obtain srt where sf: "sortFn st inst srt = Inr f" by blast
    have "f (rowAt h2 a) (rowAt h2 b) = f (rowAt h a) (rowAt h b)" for a b
      using vals by (intro sortFn_values_only [OF sf]) simp_all
    then show "(\<lambda>a b. f (rowAt h2 a) (rowAt h2 b)) = (\<lambda>a b. f (rowAt h a) (rowAt h b))"
      by (intro ext)
  qed
  show ?thesis by (simp only: orderedContents_intoNewArray [OF pure] Inr sum.case m arr)
qed

lemma orderLevel_perm:
  assumes cols: "\<forall>c\<in>set sortBy. findColumn (columns inst) (sort_id c) \<noteq> None"
    and pure: "orderByFn inst = intoNewArray ord"
    and perm: "\<forall>xs fs ds. mset (ord xs fs ds) = mset xs"
  shows "\<exists>ys. orderLevel st inst sortBy h rows = Inr (nextArray h, snd (newArray h ys))
     \<and> orderedContents st inst sortBy h rows = Inr ys \<and> mset ys = mset (arrayAt h rows)"
proof -
  have "\<forall>c\<in>set sortBy. \<exists>f. sortFn st inst c = Inr f"
    using cols by (auto simp: sortFn_def split: option.splits)
  from mapE_total [OF this] obtain funcs where f: "mapE (sortFn st inst) sortBy = Inr funcs" ..
  have "\<forall>c\<in>set sortBy. \<exists>d. sortDir inst c = Inr d"
    using cols by (auto simp: sortDir_def split: option.splits)
  from mapE_total [OF this] obtain dirs where d: "mapE (sortDir inst) sortBy = Inr dirs" ..
  let ?ys = "ord (arrayAt h rows) (map (\<lambda>f a b. f (rowAt h a) (rowAt h b)) funcs) dirs"
  have "orderLevel st inst sortBy h rows = Inr (newArray h ?ys)"
    by (simp add: orderLevel_def f d pure intoNewArray_def)
  then have o: "orderLevel st inst sortBy h rows = Inr (nextArray h, snd (newArray h ?ys))"
    by (simp add: newArray_def)
  have c: "orderedContents st inst sortBy h rows = Inr ?ys"
    by (simp add: orderedContents_intoNewArray [OF pure] f d)
  from o c perm show ?thesis by blast
qed

lemma forest_Nil: "forest n h []"
  by (simp add: forest_def allocatedRows_def)

lemma forest_Cons_None:
  assumes "forest n h (r # rs)" "subRows (rowAt h r) = None"
  shows "forest n h rs" and "rowsWithin n h (r # rs) = r # rowsWithin n h rs"
  using assms by (simp_all add: forest_def allocatedRows_def)

lemma forest_Cons_Some:
  assumes "forest n h (r # rs)" "subRows (rowAt h r) = Some s"
  shows "\<exists>m. n = Suc m \<and> forest m h (arrayAt h s) \<and> forest n h rs
     \<and> rowsWithin n h (r # rs) = r # rowsWithin m h (arrayAt h s) @ rowsWithin n h rs
     \<and> r \<notin> set (rowsWithin m h (arrayAt h s)) \<and> r \<notin> set (rowsWithin n h rs)
     \<and> set (rowsWithin m h (arrayAt h s)) \<inter> set (rowsWithin n h rs) = {}
     \<and> s < nextArray h"
proof (cases n)
  case 0
  with assms show ?thesis by (simp add: forest_def)
next
  case (Suc m)
  with assms show ?thesis by (auto simp: forest_def allocatedRows_def)
qed

lemma forest_agree:
  assumes f: "forest n h rs"
    and rows: "\<forall>x\<in>set (rowsWithin n h rs). rowAt h2 x = rowAt h x"
    and arrays: "\<forall>a. a < nextArray h \<longrightarrow> arrayAt h2 a = arrayAt h a"
    and nxt: "nextArray h \<le> nextArray h2"
  shows "forest n h2 rs" and "rowsWithin n h2 rs = rowsWithin n h rs"
proof -
  from f have al: "\<forall>r\<in>set (rowsWithin n h rs). \<forall>s. subRows (rowAt h r) = Some s \<longrightarrow> s < nextArray h"
    by (simp add: forest_def allocatedRows_set)
  with arrays have
    "\<forall>r\<in>set (rowsWithin n h rs). \<forall>s. subRows (rowAt h r) = Some s \<longrightarrow> arrayAt h2 s = arrayAt h s"
    by blast
  from rowsWithin_agree [OF rows this]
  have eq: "rowsWithin n h2 rs = rowsWithin n h rs" and d: "depthOK n h2 rs = depthOK n h rs"
    by simp_all
  show "rowsWithin n h2 rs = rowsWithin n h rs" by (rule eq)
  have "\<forall>r\<in>set (rowsWithin n h rs). \<forall>s. subRows (rowAt h2 r) = Some s \<longrightarrow> s < nextArray h2"
  proof (intro ballI allI impI)
    fix r s assume r: "r \<in> set (rowsWithin n h rs)" and s: "subRows (rowAt h2 r) = Some s"
    from rows r s have "subRows (rowAt h r) = Some s" by simp
    with al r have "s < nextArray h" by blast
    with nxt show "s < nextArray h2" by simp
  qed
  with f eq d show "forest n h2 rs" by (simp add: forest_def allocatedRows_set)
qed

lemma data_step:
  fixes h :: "'v heap" and inst :: "('v, 'x) instance_scheme"
  assumes cols: "\<forall>c\<in>set sortBy. findColumn (columns inst) (sort_id c) \<noteq> None"
    and pure: "orderByFn inst = intoNewArray ord"
    and perm: "\<forall>xs fs ds. mset (ord xs fs ds) = mset xs"
    and loop: "\<And>(h :: 'v heap) rs. forest m h rs \<Longrightarrow>
       \<exists>h'. sortSubRows m st inst sortBy h rs = Inr h' \<and> sortedBelow m st inst sortBy h rs h'"
    and f: "forest m h (arrayAt h rows)"
  shows "\<exists>h'. sortData (Suc m) st inst sortBy h rows = Inr (nextArray h, h')
     \<and> nextArray h < nextArray h'
     \<and> orderedContents st inst sortBy h rows = Inr (arrayAt h' (nextArray h))
     \<and> sortedBelow m st inst sortBy h (arrayAt h rows) h'"
proof -
  from orderLevel_perm [OF cols pure perm, of st h rows] obtain sorted where
    ol: "orderLevel st inst sortBy h rows = Inr (nextArray h, snd (newArray h sorted))"
    and o: "orderedContents st inst sortBy h rows = Inr sorted"
    and ms: "mset sorted = mset (arrayAt h rows)"
    by blast
  let ?h1 = "snd (newArray h sorted)"
  have f0: "forest m h sorted" using forest_perm [OF ms, of m h] f by simp
  have F: "set (rowsWithin m h sorted) = set (rowsWithin m h (arrayAt h rows))"
    using rowsWithin_perm [OF ms, of m h] by (rule mset_eq_setD)
  have f1: "forest m ?h1 sorted" and F1: "rowsWithin m ?h1 sorted = rowsWithin m h sorted"
    using forest_agree [OF f0, of ?h1]
    by (simp_all add: rowAt_newArray arrayAt_newArray nextArray_newArray)
  from loop [OF f1] obtain h' where
    l: "sortSubRows m st inst sortBy ?h1 sorted = Inr h'"
    and sb: "sortedBelow m st inst sortBy ?h1 sorted h'"
    by blast
  have res: "sortData (Suc m) st inst sortBy h rows = Inr (nextArray h, h')"
    using ol l by (simp add: arrayAt_newArray)
  from sb have k1: "keeps ?h1 h'" by (simp add: sortedBelow_def)
  from keeps_trans [OF keeps_newArray k1] have k: "keeps h h'" .
  from k1 have n1: "Suc (nextArray h) \<le> nextArray h'"
    by (simp add: keeps_def nextArray_newArray)
  from k1 have "arrayAt h' (nextArray h) = arrayAt ?h1 (nextArray h)"
    by (simp add: keeps_def nextArray_newArray)
  then have top: "arrayAt h' (nextArray h) = sorted" by (simp add: arrayAt_newArray)
  have vals: "\<forall>r. row_values (rowAt ?h1 r) = row_values (rowAt h r)"
    by (simp add: rowAt_newArray)
  have outside: "\<forall>r. r \<notin> set (rowsWithin m h (arrayAt h rows)) \<longrightarrow> rowAt h' r = rowAt h r"
  proof (intro allI impI)
    fix r assume "r \<notin> set (rowsWithin m h (arrayAt h rows))"
    with F F1 have "r \<notin> set (rowsWithin m ?h1 sorted)" by simp
    with sb have "rowAt h' r = rowAt ?h1 r" by (simp add: sortedBelow_def)
    then show "rowAt h' r = rowAt h r" by (simp add: rowAt_newArray)
  qed
  have inside: "\<forall>r\<in>set (rowsWithin m h (arrayAt h rows)). \<forall>s. subRows (rowAt h r) = Some s \<longrightarrow>
            (\<exists>s'. subRows (rowAt h' r) = Some s' \<and> nextArray h \<le> s' \<and> s' < nextArray h'
                 \<and> orderedContents st inst sortBy h s = Inr (arrayAt h' s'))"
  proof (intro ballI allI impI)
    fix r s assume r: "r \<in> set (rowsWithin m h (arrayAt h rows))" and s: "subRows (rowAt h r) = Some s"
    from r F F1 have r1: "r \<in> set (rowsWithin m ?h1 sorted)" by simp
    from s have s1: "subRows (rowAt ?h1 r) = Some s" by (simp add: rowAt_newArray)
    from sb r1 s1 obtain s' where
      a: "subRows (rowAt h' r) = Some s'" and b: "nextArray ?h1 \<le> s'" and c: "s' < nextArray h'"
      and d: "orderedContents st inst sortBy ?h1 s = Inr (arrayAt h' s')"
      unfolding sortedBelow_def by blast
    from f r s have "s < nextArray h" by (simp add: forest_def allocatedRows_set)
    then have "arrayAt ?h1 s = arrayAt h s" by (simp add: arrayAt_newArray)
    from orderedContents_agree [OF pure vals this, of st sortBy] d
    have "orderedContents st inst sortBy h s = Inr (arrayAt h' s')" by simp
    moreover from b have "nextArray h \<le> s'" by (simp add: nextArray_newArray)
    ultimately show "\<exists>s'. subRows (rowAt h' r) = Some s' \<and> nextArray h \<le> s' \<and> s' < nextArray h'
                 \<and> orderedContents st inst sortBy h s = Inr (arrayAt h' s')"
      using a c by blast
  qed
  have "sortedBelow m st inst sortBy h (arrayAt h rows) h'"
    unfolding sortedBelow_def using k outside inside by blast
  with res n1 o top show ?thesis by auto
qed

subsection \<open>Sorting a forest\<close>

lemma loop_step:
  fixes inst :: "('v, 'x) instance_scheme"
  assumes pure: "orderByFn inst = intoNewArray ord"
    and data: "\<And>m (h :: 'v heap) rows. n = Suc m \<Longrightarrow> forest m h (arrayAt h rows) \<Longrightarrow>
       \<exists>h'. sortData n st inst sortBy h rows = Inr (nextArray h, h')
         \<and> nextArray h < nextArray h'
         \<and> orderedContents st inst sortBy h rows = Inr (arrayAt h' (nextArray h))
         \<and> sortedBelow m st inst sortBy h (arrayAt h rows) h'"
  shows "forest n (h :: 'v heap) rs \<Longrightarrow>
     \<exists>h'. sortSubRows n st inst sortBy h rs = Inr h' \<and> sortedBelow n st inst sortBy h rs h'"
proof (induction rs arbitrary: h)
  case Nil
  show ?case by (simp add: sortedBelow_def keeps_refl)
next
  case (Cons r rest)
  show ?case
  proof (cases "subRows (rowAt h r)")
    case None
    from forest_Cons_None [OF Cons.prems None]
    have f: "forest n h rest" and F: "rowsWithin n h (r # rest) = r # rowsWithin n h rest"
      by simp_all
    from Cons.IH [OF f] obtain h' where
      l: "sortSubRows n st inst sortBy h rest = Inr h'"
      and sb: "sortedBelow n st inst sortBy h rest h'"
      by blast
    have "sortedBelow n st inst sortBy h (r # rest) h'"
      using sb None unfolding sortedBelow_def F by auto
    with l None show ?thesis by simp
  next
    case (Some sub)
    from forest_Cons_Some [OF Cons.prems Some] obtain m where
      n: "n = Suc m" and fs: "forest m h (arrayAt h sub)" and fr: "forest n h rest"
      and F: "rowsWithin n h (r # rest) = r # rowsWithin m h (arrayAt h sub) @ rowsWithin n h rest"
      and r1: "r \<notin> set (rowsWithin m h (arrayAt h sub))" and r2: "r \<notin> set (rowsWithin n h rest)"
      and dj: "set (rowsWithin m h (arrayAt h sub)) \<inter> set (rowsWithin n h rest) = {}"
      and sa: "sub < nextArray h"
      by blast
    from data [OF n fs] obtain h1 where
      d: "sortData n st inst sortBy h sub = Inr (nextArray h, h1)"
      and n1: "nextArray h < nextArray h1"
      and o1: "orderedContents st inst sortBy h sub = Inr (arrayAt h1 (nextArray h))"
      and sb1: "sortedBelow m st inst sortBy h (arrayAt h sub) h1"
      by blast
    let ?h2 = "setSubRows h1 r (nextArray h)"
    from sb1 have k1: "keeps h h1"
      and out1: "\<forall>x. x \<notin> set (rowsWithin m h (arrayAt h sub)) \<longrightarrow> rowAt h1 x = rowAt h x"
      and in1: "\<forall>x\<in>set (rowsWithin m h (arrayAt h sub)). \<forall>s. subRows (rowAt h x) = Some s \<longrightarrow>
            (\<exists>s'. subRows (rowAt h1 x) = Some s' \<and> nextArray h \<le> s' \<and> s' < nextArray h1
                 \<and> orderedContents st inst sortBy h s = Inr (arrayAt h1 s'))"
      by (simp_all add: sortedBelow_def)
    from k1 Some have "subRows (rowAt h1 r) \<noteq> None" by (simp add: keeps_def)
    from keeps_setSubRows [OF this] have k12: "keeps h1 ?h2" .
    from keeps_trans [OF k1 k12] have k2: "keeps h ?h2" .
    have rows2: "\<forall>x\<in>set (rowsWithin n h rest). rowAt ?h2 x = rowAt h x"
    proof
      fix x assume x: "x \<in> set (rowsWithin n h rest)"
      with r2 have "x \<noteq> r" by blast
      moreover from x dj have "x \<notin> set (rowsWithin m h (arrayAt h sub))" by blast
      ultimately show "rowAt ?h2 x = rowAt h x" using out1 by (simp add: rowAt_setSubRows)
    qed
    from k2 have arr2: "\<forall>a. a < nextArray h \<longrightarrow> arrayAt ?h2 a = arrayAt h a"
      and nx2: "nextArray h \<le> nextArray ?h2"
      and vals2: "\<forall>x. row_values (rowAt ?h2 x) = row_values (rowAt h x)"
      by (simp_all add: keeps_def)
    from forest_agree [OF fr rows2 arr2 nx2]
    have fr2: "forest n ?h2 rest" and F2: "rowsWithin n ?h2 rest = rowsWithin n h rest"
      by simp_all
    from Cons.IH [OF fr2] obtain h3 where
      l: "sortSubRows n st inst sortBy ?h2 rest = Inr h3"
      and sb3: "sortedBelow n st inst sortBy ?h2 rest h3"
      by blast
    from sb3 F2 have k23: "keeps ?h2 h3"
      and out3: "\<forall>x. x \<notin> set (rowsWithin n h rest) \<longrightarrow> rowAt h3 x = rowAt ?h2 x"
      and in3: "\<forall>x\<in>set (rowsWithin n h rest). \<forall>s. subRows (rowAt ?h2 x) = Some s \<longrightarrow>
            (\<exists>s'. subRows (rowAt h3 x) = Some s' \<and> nextArray ?h2 \<le> s' \<and> s' < nextArray h3
                 \<and> orderedContents st inst sortBy ?h2 s = Inr (arrayAt h3 s'))"
      by (simp_all add: sortedBelow_def)
    from keeps_trans [OF k2 k23] have k3: "keeps h h3" .
    from k23 have keep23: "\<forall>a. a < nextArray h1 \<longrightarrow> arrayAt h3 a = arrayAt h1 a"
      and nx23: "nextArray h1 \<le> nextArray h3"
      by (simp_all add: keeps_def nextArray_setSubRows arrayAt_setSubRows)
    have res: "sortSubRows n st inst sortBy h (r # rest) = Inr h3"
      using Some d l by simp
    have outside: "\<forall>x. x \<notin> set (rowsWithin n h (r # rest)) \<longrightarrow> rowAt h3 x = rowAt h x"
    proof (intro allI impI)
      fix x assume "x \<notin> set (rowsWithin n h (r # rest))"
      from this [unfolded F] have a: "x \<noteq> r" and b: "x \<notin> set (rowsWithin m h (arrayAt h sub))"
        and c: "x \<notin> set (rowsWithin n h rest)"
        by simp_all
      from c out3 have "rowAt h3 x = rowAt ?h2 x" by blast
      also from a have "\<dots> = rowAt h1 x" by (simp add: rowAt_setSubRows)
      also from b out1 have "\<dots> = rowAt h x" by blast
      finally show "rowAt h3 x = rowAt h x" .
    qed
    have inside: "\<forall>x\<in>set (rowsWithin n h (r # rest)). \<forall>s. subRows (rowAt h x) = Some s \<longrightarrow>
            (\<exists>s'. subRows (rowAt h3 x) = Some s' \<and> nextArray h \<le> s' \<and> s' < nextArray h3
                 \<and> orderedContents st inst sortBy h s = Inr (arrayAt h3 s'))"
    proof (intro ballI allI impI)
      fix x s assume x: "x \<in> set (rowsWithin n h (r # rest))" and s: "subRows (rowAt h x) = Some s"
      from x [unfolded F] consider (head) "x = r" | (below) "x \<in> set (rowsWithin m h (arrayAt h sub))"
        | (later) "x \<in> set (rowsWithin n h rest)"
        by auto
      then show "\<exists>s'. subRows (rowAt h3 x) = Some s' \<and> nextArray h \<le> s' \<and> s' < nextArray h3
                 \<and> orderedContents st inst sortBy h s = Inr (arrayAt h3 s')"
      proof cases
        case head
        with s Some have ss: "s = sub" by simp
        from head r2 out3 have "rowAt h3 x = rowAt ?h2 r" by blast
        then have a: "subRows (rowAt h3 x) = Some (nextArray h)" by (simp add: rowAt_setSubRows)
        from n1 keep23 have "arrayAt h3 (nextArray h) = arrayAt h1 (nextArray h)" by blast
        with o1 ss have "orderedContents st inst sortBy h s = Inr (arrayAt h3 (nextArray h))"
          by simp
        moreover from n1 nx23 have "nextArray h < nextArray h3" by simp
        ultimately show ?thesis using a by blast
      next
        case below
        with r1 have xr: "x \<noteq> r" by blast
        from below dj have "x \<notin> set (rowsWithin n h rest)" by blast
        with out3 have "rowAt h3 x = rowAt ?h2 x" by blast
        with xr have e: "rowAt h3 x = rowAt h1 x" by (simp add: rowAt_setSubRows)
        from in1 below s obtain s' where
          a: "subRows (rowAt h1 x) = Some s'" and b: "nextArray h \<le> s'" and c: "s' < nextArray h1"
          and o: "orderedContents st inst sortBy h s = Inr (arrayAt h1 s')"
          by blast
        from c keep23 have "arrayAt h3 s' = arrayAt h1 s'" by blast
        with o have "orderedContents st inst sortBy h s = Inr (arrayAt h3 s')" by simp
        moreover from c nx23 have "s' < nextArray h3" by simp
        ultimately show ?thesis using a b e by auto
      next
        case later
        with rows2 have e: "rowAt ?h2 x = rowAt h x" by blast
        with s have "subRows (rowAt ?h2 x) = Some s" by simp
        with in3 later obtain s' where
          a: "subRows (rowAt h3 x) = Some s'" and b: "nextArray ?h2 \<le> s'" and c: "s' < nextArray h3"
          and o: "orderedContents st inst sortBy ?h2 s = Inr (arrayAt h3 s')"
          by blast
        from fr later s have "s < nextArray h" by (simp add: forest_def allocatedRows_set)
        with arr2 have "arrayAt ?h2 s = arrayAt h s" by blast
        from orderedContents_agree [OF pure vals2 this, of st sortBy] o
        have "orderedContents st inst sortBy h s = Inr (arrayAt h3 s')" by simp
        moreover from b nx2 have "nextArray h \<le> s'" by simp
        ultimately show ?thesis using a c by blast
      qed
    qed
    have "sortedBelow n st inst sortBy h (r # rest) h3"
      unfolding sortedBelow_def using k3 outside inside by blast
    with res show ?thesis by blast
  qed
qed

lemma sortSubRows_forest:
  fixes h :: "'v heap" and inst :: "('v, 'x) instance_scheme"
  assumes cols: "\<forall>c\<in>set sortBy. findColumn (columns inst) (sort_id c) \<noteq> None"
    and pure: "orderByFn inst = intoNewArray ord"
    and perm: "\<forall>xs fs ds. mset (ord xs fs ds) = mset xs"
  shows "forest n h rs \<Longrightarrow>
     \<exists>h'. sortSubRows n st inst sortBy h rs = Inr h' \<and> sortedBelow n st inst sortBy h rs h'"
proof (induction n arbitrary: h rs)
  case 0
  show ?case by (rule loop_step [OF pure _ "0.prems"]) simp
next
  case (Suc n)
  show ?case
  proof (rule loop_step [OF pure _ Suc.prems])
    fix m and h :: "'v heap" and rows
    assume m: "Suc n = Suc m" and f: "forest m h (arrayAt h rows)"
    from m f have f': "forest n h (arrayAt h rows)" by simp
    from data_step [OF cols pure perm Suc.IH f'] m
    show "\<exists>h'. sortData (Suc n) st inst sortBy h rows = Inr (nextArray h, h')
         \<and> nextArray h < nextArray h'
         \<and> orderedContents st inst sortBy h rows = Inr (arrayAt h' (nextArray h))
         \<and> sortedBelow m st inst sortBy h (arrayAt h rows) h'"
      by simp
  qed
qed

lemma sortData_forest:
  fixes h :: "'v heap" and inst :: "('v, 'x) instance_scheme"
  assumes cols: "\<forall>c\<in>set sortBy. findColumn (columns inst) (sort_id c) \<noteq> None"
    and pure: "orderByFn inst = intoNewArray ord"
    and perm: "\<forall>xs fs ds. mset (ord xs fs ds) = mset xs"
    and f: "forest n h (arrayAt h rows)"
  shows "\<exists>h'. sortData (Suc n) st inst sortBy h rows = Inr (nextArray h, h')
     \<and> nextArray h < nextArray h'
     \<and> orderedContents st inst sortBy h rows = Inr (arrayAt h' (nextArray h))
     \<and> sortedBelow n st inst sortBy h (arrayAt h rows) h'"
  by (rule data_step [OF cols pure perm sortSubRows_forest [OF cols pure perm] f])

lemma depth_mono:
  "depthOK n h rs \<Longrightarrow> depthOK (Suc n) h rs \<and> rowsWithin (Suc n) h rs = rowsWithin n h rs"
proof (induction n h rs rule: rowsWithin.induct)
  case (1 n h)
  show ?case by simp
next
  case (2 n h r rs)
  from "2.prems" have "depthOK n h rs" by simp
  from "2.IH"(2) [OF this]
  have rest: "depthOK (Suc n) h rs \<and> rowsWithin (Suc n) h rs = rowsWithin n h rs" .
  show ?case
  proof (cases "subRows (rowAt h r)")
    case None
    with rest show ?thesis by simp
  next
    case (Some s)
    show ?thesis
    proof (cases n)
      case 0
      with "2.prems" Some show ?thesis by simp
    next
      case (Suc m)
      with "2.prems" Some have "depthOK m h (arrayAt h s)" by simp
      from "2.IH"(1) [OF Some Suc this] Some Suc rest show ?thesis by simp
    qed
  qed
qed

lemma forest_mono:
  assumes "forest n h rs" "n \<le> m"
  shows "forest m h rs \<and> rowsWithin m h rs = rowsWithin n h rs"
  using assms(2)
proof (induction m)
  case 0
  with assms(1) show ?case by simp
next
  case (Suc m)
  show ?case
  proof (cases "n = Suc m")
    case True
    with assms(1) show ?thesis by simp
  next
    case False
    with Suc.prems have "n \<le> m" by simp
    from Suc.IH [OF this] have f: "forest m h rs" and e: "rowsWithin m h rs = rowsWithin n h rs"
      by simp_all
    from f have "depthOK m h rs" by (simp add: forest_def)
    from depth_mono [OF this] f e show ?thesis by (simp add: forest_def)
  qed
qed

lemma sortData_enough_fuel:
  fixes h :: "'v heap" and inst :: "('v, 'x) instance_scheme"
  assumes cols: "\<forall>c\<in>set sortBy. findColumn (columns inst) (sort_id c) \<noteq> None"
    and pure: "orderByFn inst = intoNewArray ord"
    and perm: "\<forall>xs fs ds. mset (ord xs fs ds) = mset xs"
    and f: "forest n h (arrayAt h rows)"
    and fuel: "n < fuel"
  shows "\<exists>h'. sortData fuel st inst sortBy h rows = Inr (nextArray h, h')
     \<and> nextArray h < nextArray h'
     \<and> orderedContents st inst sortBy h rows = Inr (arrayAt h' (nextArray h))
     \<and> sortedBelow n st inst sortBy h (arrayAt h rows) h'"
proof -
  from fuel obtain m where m: "fuel = Suc m" and nm: "n \<le> m" by (cases fuel) auto
  from forest_mono [OF f nm]
  have fm: "forest m h (arrayAt h rows)"
    and e: "rowsWithin m h (arrayAt h rows) = rowsWithin n h (arrayAt h rows)"
    by simp_all
  from sortData_forest [OF cols pure perm fm, of st] e m show ?thesis
    by (simp add: sortedBelow_def)
qed

text \<open>
  C8: on a forest, with enough depth, and with an \<open>orderByFn\<close> that puts a permutation
  of the level it is given into a new array (as the built-in one does), \<open>sortData\<close>
  returns. The array it returns holds the ordering of the level it was given, and every row
  of the forest that owned \<open>subRows\<close>, at any level, owns the ordering of its old
  \<open>subRows\<close> afterwards, by the same criteria and comparators; the others still have
  none. The ordering of a level is the same in any heap where that array holds the same
  rows and all rows have the same cell values, whatever their \<open>subRows\<close> are. With the
  built-in composition it is the same as soon as the rows of that level have the same cell
  values, whatever the values of any other row are: where a row stands among its siblings
  depends on the values of the rows of its level only, never on those of its descendants.
\<close>

theorem sortData_orders_every_level:
  fixes h :: "'v heap" and inst :: "('v, 'x) instance_scheme"
  assumes cols: "\<forall>c\<in>set sortBy. findColumn (columns inst) (sort_id c) \<noteq> None"
    and pure: "orderByFn inst = intoNewArray ord"
    and perm: "\<forall>xs fs ds. mset (ord xs fs ds) = mset xs"
    and f: "forest n h (arrayAt h rows)"
    and fuel: "n < fuel"
  shows "\<exists>res h'. sortData fuel st inst sortBy h rows = Inr (res, h')
     \<and> orderedContents st inst sortBy h rows = Inr (arrayAt h' res)
     \<and> (\<forall>r\<in>set (rowsWithin n h (arrayAt h rows)).
           case subRows (rowAt h r) of
             None \<Rightarrow> childRows h' r = None
           | Some s \<Rightarrow> (\<exists>ys. orderedContents st inst sortBy h s = Inr ys
                           \<and> childRows h' r = Some ys))
     \<and> (\<forall>(h2 :: 'v heap) xs.
           arrayAt h2 xs = arrayAt h xs
           \<and> (\<forall>r. row_values (rowAt h2 r) = row_values (rowAt h r)) \<longrightarrow>
           orderedContents st inst sortBy h2 xs = orderedContents st inst sortBy h xs)
     \<and> (ord = defaultOrderByFn \<longrightarrow>
          (\<forall>(h2 :: 'v heap) xs.
             arrayAt h2 xs = arrayAt h xs
             \<and> (\<forall>r\<in>set (arrayAt h xs). row_values (rowAt h2 r) = row_values (rowAt h r)) \<longrightarrow>
             orderedContents st inst sortBy h2 xs = orderedContents st inst sortBy h xs))"
proof -
  from sortData_enough_fuel [OF cols pure perm f fuel, of st] obtain h' where
    d: "sortData fuel st inst sortBy h rows = Inr (nextArray h, h')"
    and o: "orderedContents st inst sortBy h rows = Inr (arrayAt h' (nextArray h))"
    and sb: "sortedBelow n st inst sortBy h (arrayAt h rows) h'"
    by blast
  from sb have k: "keeps h h'"
    and ins: "\<forall>r\<in>set (rowsWithin n h (arrayAt h rows)). \<forall>s. subRows (rowAt h r) = Some s \<longrightarrow>
            (\<exists>s'. subRows (rowAt h' r) = Some s' \<and> nextArray h \<le> s' \<and> s' < nextArray h'
                 \<and> orderedContents st inst sortBy h s = Inr (arrayAt h' s'))"
    by (simp_all add: sortedBelow_def)
  have lv: "\<forall>r\<in>set (rowsWithin n h (arrayAt h rows)).
           case subRows (rowAt h r) of
             None \<Rightarrow> childRows h' r = None
           | Some s \<Rightarrow> (\<exists>ys. orderedContents st inst sortBy h s = Inr ys
                           \<and> childRows h' r = Some ys)"
  proof
    fix r assume r: "r \<in> set (rowsWithin n h (arrayAt h rows))"
    show "case subRows (rowAt h r) of
             None \<Rightarrow> childRows h' r = None
           | Some s \<Rightarrow> (\<exists>ys. orderedContents st inst sortBy h s = Inr ys
                           \<and> childRows h' r = Some ys)"
    proof (cases "subRows (rowAt h r)")
      case None
      with k have "subRows (rowAt h' r) = None" by (simp add: keeps_def)
      with None show ?thesis by (simp add: childRows_def)
    next
      case (Some s)
      with ins r obtain s' where "subRows (rowAt h' r) = Some s'"
        and "orderedContents st inst sortBy h s = Inr (arrayAt h' s')"
        by blast
      with Some show ?thesis by (simp add: childRows_def)
    qed
  qed
  have vo: "\<forall>(h2 :: 'v heap) xs.
           arrayAt h2 xs = arrayAt h xs
           \<and> (\<forall>r. row_values (rowAt h2 r) = row_values (rowAt h r)) \<longrightarrow>
           orderedContents st inst sortBy h2 xs = orderedContents st inst sortBy h xs"
    using orderedContents_agree [OF pure] by blast
  have lo: "ord = defaultOrderByFn \<longrightarrow>
          (\<forall>(h2 :: 'v heap) xs.
             arrayAt h2 xs = arrayAt h xs
             \<and> (\<forall>r\<in>set (arrayAt h xs). row_values (rowAt h2 r) = row_values (rowAt h r)) \<longrightarrow>
             orderedContents st inst sortBy h2 xs = orderedContents st inst sortBy h xs)"
  proof (intro impI allI)
    fix h2 :: "'v heap" and xs
    assume b: "ord = defaultOrderByFn"
      and a: "arrayAt h2 xs = arrayAt h xs
             \<and> (\<forall>r\<in>set (arrayAt h xs). row_values (rowAt h2 r) = row_values (rowAt h r))"
    from pure b have built: "orderByFn inst = intoNewArray defaultOrderByFn" by simp
    from a have a1: "arrayAt h2 xs = arrayAt h xs"
      and a2: "\<forall>r\<in>set (arrayAt h xs). row_values (rowAt h2 r) = row_values (rowAt h r)"
      by simp_all
    show "orderedContents st inst sortBy h2 xs = orderedContents st inst sortBy h xs"
      by (rule orderedContents_level_local [OF built a1 a2])
  qed
  from d o lv vo lo show ?thesis by blast
qed

lemma exHeap_forest: "forest 1 exHeap (arrayAt exHeap 0)"
  by (simp add: forest_def allocatedRows_def exHeap_def exRow_def)

lemma exInst_columns: "\<forall>c\<in>set exSortBy. findColumn (columns exInst) (sort_id c) \<noteq> None"
  by (simp add: exSortBy_def exInst_def findColumn_def)

lemma exInst_pure: "orderByFn exInst = intoNewArray defaultOrderByFn"
  by (simp add: exInst_def)

lemma defaultOrderByFn_perm: "\<forall>xs fs ds. mset (defaultOrderByFn xs fs ds) = mset xs"
  by (simp add: mset_defaultOrderByFn)

lemma exHeap_levels:
  "orderedContents exTypes exInst exSortBy exHeap 0 = Inr [11, 10]"
  "orderedContents exTypes exInst exSortBy exHeap 1 = Inr [13, 12]"
  unfolding orderedContents_intoNewArray [OF exInst_pure]
  by (simp_all add: exSortBy_def sortFn_def sortDir_def findColumn_def exInst_def
      exTypes_def exHeap_def exRow_def sortMethod_def isFunction_def userLookup_def
      builtinLookup_def defaultOrderByFn_def)

lemma exDeep_levels:
  "orderedContents exTypes exInst exSortBy exDeep 0 = Inr [11, 10]"
  "orderedContents exTypes exInst exSortBy exDeep 1 = Inr [12, 13]"
  unfolding orderedContents_intoNewArray [OF exInst_pure]
  by (simp_all add: exSortBy_def sortFn_def sortDir_def findColumn_def exInst_def
      exTypes_def exDeep_def exRow_def sortMethod_def isFunction_def userLookup_def
      builtinLookup_def defaultOrderByFn_def)

theorem sortData_orders_every_level_witness:
  "forest 1 exHeap (arrayAt exHeap 0)
   \<and> rowsWithin 1 exHeap (arrayAt exHeap 0) = [10, 12, 13, 11]
   \<and> (\<exists>res h'. sortData 2 exTypes exInst exSortBy exHeap 0 = Inr (res, h')
         \<and> arrayAt h' res = [11, 10]
         \<and> childRows h' 10 = Some [13, 12]
         \<and> childRows h' 11 = None)
   \<and> row_values (rowAt exDeep 13) \<noteq> row_values (rowAt exHeap 13)
   \<and> orderedContents exTypes exInst exSortBy exDeep 1 \<noteq> orderedContents exTypes exInst exSortBy exHeap 1
   \<and> orderedContents exTypes exInst exSortBy exDeep 0 = orderedContents exTypes exInst exSortBy exHeap 0"
proof -
  have F: "rowsWithin 1 exHeap (arrayAt exHeap 0) = [10, 12, 13, 11]"
    by (simp add: exHeap_def exRow_def)
  have a: "arrayAt exHeap 0 = [10, 11]" "arrayAt exHeap 1 = [12, 13]"
    "subRows (rowAt exHeap 10) = Some 1" "subRows (rowAt exHeap 11) = None"
    by (simp_all add: exHeap_def exRow_def)
  have v: "row_values (rowAt exDeep 13) ''a'' = 9" "row_values (rowAt exHeap 13) ''a'' = 4"
    by (simp_all add: exHeap_def exDeep_def exRow_def)
  have nv: "row_values (rowAt exDeep 13) \<noteq> row_values (rowAt exHeap 13)"
  proof
    assume "row_values (rowAt exDeep 13) = row_values (rowAt exHeap 13)"
    then have "row_values (rowAt exDeep 13) ''a'' = row_values (rowAt exHeap 13) ''a''" by simp
    with v show False by simp
  qed
  have l1: "orderedContents exTypes exInst exSortBy exDeep 1 \<noteq> orderedContents exTypes exInst exSortBy exHeap 1"
    using exHeap_levels(2) exDeep_levels(2) by simp
  have same: "arrayAt exDeep 0 = arrayAt exHeap 0
             \<and> (\<forall>r\<in>set (arrayAt exHeap 0). row_values (rowAt exDeep r) = row_values (rowAt exHeap r))"
    by (simp add: exHeap_def exDeep_def exRow_def)
  have lt: "(1::nat) < 2" by simp
  from sortData_orders_every_level [OF exInst_columns exInst_pure defaultOrderByFn_perm exHeap_forest lt, of exTypes]
  obtain res h' where
    d: "sortData 2 exTypes exInst exSortBy exHeap 0 = Inr (res, h')"
    and o: "orderedContents exTypes exInst exSortBy exHeap 0 = Inr (arrayAt h' res)"
    and lv: "\<forall>r\<in>set (rowsWithin 1 exHeap (arrayAt exHeap 0)).
           case subRows (rowAt exHeap r) of
             None \<Rightarrow> childRows h' r = None
           | Some s \<Rightarrow> (\<exists>ys. orderedContents exTypes exInst exSortBy exHeap s = Inr ys
                           \<and> childRows h' r = Some ys)"
    and lo': "(defaultOrderByFn :: addr list \<Rightarrow> (addr \<Rightarrow> addr \<Rightarrow> int) list \<Rightarrow> jsflag list \<Rightarrow> addr list) = defaultOrderByFn \<longrightarrow>
           (\<forall>(h2 :: int heap) xs.
             arrayAt h2 xs = arrayAt exHeap xs
             \<and> (\<forall>r\<in>set (arrayAt exHeap xs). row_values (rowAt h2 r) = row_values (rowAt exHeap r)) \<longrightarrow>
             orderedContents exTypes exInst exSortBy h2 xs = orderedContents exTypes exInst exSortBy exHeap xs)"
    by blast
  from lo' have lo: "\<forall>(h2 :: int heap) xs.
             arrayAt h2 xs = arrayAt exHeap xs
             \<and> (\<forall>r\<in>set (arrayAt exHeap xs). row_values (rowAt h2 r) = row_values (rowAt exHeap r)) \<longrightarrow>
             orderedContents exTypes exInst exSortBy h2 xs = orderedContents exTypes exInst exSortBy exHeap xs"
    by (rule mp) (rule refl)
  from o a exHeap_levels have t: "arrayAt h' res = [11, 10]" by simp
  from lv F a exHeap_levels have c: "childRows h' 10 = Some [13, 12]" "childRows h' 11 = None"
    by simp_all
  from lo same have l0: "orderedContents exTypes exInst exSortBy exDeep 0 = orderedContents exTypes exInst exSortBy exHeap 0"
    by blast
  from d t c exHeap_forest F nv l1 l0 show ?thesis by blast
qed



text \<open>
  With an \<open>orderByFn\<close> that returns the array it was given, the run on the example forest
  returns the array of the pre-sort rows itself, and row 10 is assigned the array it had.
\<close>

lemma same_array_orderByFn_returns_input:
  "\<exists>h'. sortedRows 2 exTypes sameArrayInst exSortBy exHeap 0 = Inr (0, h')
     \<and> nextArray h' = nextArray exHeap
     \<and> arrayAt h' 0 = [10, 11]
     \<and> subRows (rowAt h' 10) = Some 1"
  by (simp add: sortedRows_def numeral_2_eq_2 exSortBy_def orderLevel_def sortFn_def
      sortDir_def findColumn_def sameArrayInst_def exInst_def exTypes_def exHeap_def exRow_def
      setSubRows_def sortMethod_def isFunction_def userLookup_def builtinLookup_def)



end
